theory Spec2Isabelle
  imports Complex_Main "HOL-Library.Multiset"
begin

section \<open>Data model of MBPRoductSyncSample.go\<close>

text \<open>
  Prices are \<open>float64\<close> in the source. The engine only compares them with \<open>==\<close> and
  copies them, so they are modelled as rationals; the rendering \<open>%.2f\<close> of a price is a
  parameter of the environment.
\<close>

type_synonym price = rat

definition folderPath :: string where
  "folderPath = ''./product''"

definition maxWorkers :: nat where
  "maxWorkers = 5"

definition maxRetries :: nat where
  "maxRetries = 5"

record Item =
  ID :: string
  Title :: string
  Description :: string
  Price :: price
  Link :: string
  ImageLink :: string
  Brand :: string
  MPN :: string
  GTIN :: string
  Availability :: string
  Condition :: string
  Inventory :: int

record Product =
  UniqueCode :: string
  Price :: price
  MPN :: string
  Status :: string

subsection \<open>Errors\<close>

text \<open>
  The result codes of the SQLite driver that the source tells apart (\<open>ErrBusy\<close>,
  \<open>ErrLocked\<close>), the code of a violated constraint, and one more for any other code.
\<close>

datatype sqlite_code = ErrBusy | ErrLocked | ErrConstraint | ErrIoErr

text \<open>Every Go \<open>error\<close> value the engine can produce or pass on.\<close>

datatype error =
    SqliteError sqlite_code
  | DriverError
  | QueryFailedAfterRetries nat "error option"
  | OpenFileFailed string
  | ExecuteUploadFailed
  | UploadFailed nat
  | ExecuteDeleteFailed
  | WriteProductFileFailed string
  | UploadProductFileFailed string error

subsection \<open>Observable effects\<close>

datatype logmsg =
    FileUploaded string
  | DeletedDocument string
  | FailedToDeleteDocument string nat
  | FailedToFetchSpecification string
  | FailedToWriteProductFile string
  | FailedToUploadProductFile string
  | ProcessedAndUploaded string
  | ErrorCheckingExistence error
  | FailedToDeleteDocumentErr string error
  | FailedToProcessItem error

text \<open>
  Every call that leaves the process and every line printed is recorded, in order:
  the sleeps of the retry loop, the requests to the document store, the call of the
  headless browser, the write of a local document.
\<close>

datatype event =
    EvSleep nat
  | EvHttpDelete string
  | EvHttpPost string
  | EvFetchSpecification string
  | EvWriteFile string string
  | EvLog logmsg

datatype http_result = TransportError | Response nat

subsection \<open>The environment and the state of the world\<close>

text \<open>
  Modelled from the spec: the declaration of the table \<open>products\<close> (its CREATE TABLE
  statement) is not in the source. The spec makes the identifier the primary key, so
  that an insert of an identifier already present fails; \<open>unique_code_is_key\<close> says
  whether the table enforces this. The other fields are the answers of the collaborators:
  the document store, the browser, the local file system and \<open>fmt.Sprintf("%.2f")\<close>.
\<close>

record Env =
  unique_code_is_key :: bool
  http_delete :: "string \<Rightarrow> http_result"
  http_upload :: "string \<Rightarrow> http_result"
  chromedp_run :: "string \<Rightarrow> (string \<times> string) option"
  write_ok :: "string \<Rightarrow> bool"
  sprintf_2f :: "price \<Rightarrow> string"

text \<open>
  \<open>rows\<close> is the table in insertion order. \<open>faults\<close> is what the driver answers to the
  next calls: \<open>Some e\<close> makes the call fail with \<open>e\<close> without touching the table,
  \<open>None\<close> (and the empty list) lets the statement run. \<open>files\<close> is the local file system.
\<close>

record World =
  rows :: "Product list"
  faults :: "error option list"
  files :: "string \<rightharpoonup> string"
  trace :: "event list"

definition emit :: "event \<Rightarrow> World \<Rightarrow> World" where
  "emit e w = w\<lparr>trace := trace w @ [e]\<rparr>"

section \<open>Persisted store\<close>

datatype stmt =
    InsertProduct Product
  | UpdateStatusPrice string price string
  | UpdateAllDeleted

text \<open>
  What each statement of the source does to the table:
  \<open>INSERT INTO products (unique_code, price, mpn, status) VALUES (?, ?, ?, ?)\<close>,
  \<open>UPDATE products SET status = ?, price = ? WHERE unique_code = ?\<close> and
  \<open>UPDATE products SET status = 'deleted'\<close>.
\<close>

fun apply_stmt :: "bool \<Rightarrow> stmt \<Rightarrow> Product list \<Rightarrow> error + Product list" where
  "apply_stmt key (InsertProduct p) rs =
     (if key \<and> UniqueCode p \<in> set (map UniqueCode rs) then Inl (SqliteError ErrConstraint)
      else Inr (rs @ [p]))"
| "apply_stmt key (UpdateStatusPrice st pr code) rs =
     Inr (map (\<lambda>r. if UniqueCode r = code then r\<lparr>Status := st, Price := pr\<rparr> else r) rs)"
| "apply_stmt key UpdateAllDeleted rs =
     Inr (map (\<lambda>r. r\<lparr>Status := ''deleted''\<rparr>) rs)"

definition db_Exec :: "Env \<Rightarrow> stmt \<Rightarrow> World \<Rightarrow> error option \<times> World" where
  "db_Exec env q w =
     (case faults w of
        Some e # fs \<Rightarrow> (Some e, w\<lparr>faults := fs\<rparr>)
      | _ \<Rightarrow>
         (case apply_stmt (unique_code_is_key env) q (rows w) of
            Inl e \<Rightarrow> (Some e, w\<lparr>faults := tl (faults w)\<rparr>)
          | Inr rs \<Rightarrow> (None, w\<lparr>faults := tl (faults w), rows := rs\<rparr>)))"

definition markAllRecordsAsDeleted :: "Env \<Rightarrow> World \<Rightarrow> error option \<times> World" where
  "markAllRecordsAsDeleted env w = db_Exec env UpdateAllDeleted w"

definition is_busy_or_locked :: "error \<Rightarrow> bool" where
  "is_busy_or_locked e = (e = SqliteError ErrBusy \<or> e = SqliteError ErrLocked)"

text \<open>
  The loop of \<open>executeWithRetry\<close>: \<open>i\<close> is the loop counter and \<open>err\<close> the last error.
\<close>

function executeWithRetry_loop ::
  "Env \<Rightarrow> stmt \<Rightarrow> nat \<Rightarrow> error option \<Rightarrow> World \<Rightarrow> error option \<times> World" where
  "executeWithRetry_loop env q i err w =
     (if i < maxRetries then
        (let (r, w') = db_Exec env q w in
         case r of
           None \<Rightarrow> (None, w')
         | Some e \<Rightarrow>
             if is_busy_or_locked e
             then executeWithRetry_loop env q (i + 1) (Some e) (emit (EvSleep ((i + 1) * 100)) w')
             else (Some e, w'))
      else (Some (QueryFailedAfterRetries maxRetries err), w))"
  by pat_completeness auto
termination
  by (relation "measure (\<lambda>(env, q, i, err, w). maxRetries - i)") auto

declare executeWithRetry_loop.simps [simp del]

definition executeWithRetry :: "Env \<Rightarrow> stmt \<Rightarrow> World \<Rightarrow> error option \<times> World" where
  "executeWithRetry env q w = executeWithRetry_loop env q 0 None w"

text \<open>
  \<open>SELECT price FROM products WHERE unique_code = ? LIMIT 1\<close>: the price of the first
  row with the code. The result is the triple the source returns.
\<close>

definition productExists :: "string \<Rightarrow> World \<Rightarrow> (bool \<times> price \<times> error option) \<times> World" where
  "productExists uniqueCode w =
     (case faults w of
        Some e # fs \<Rightarrow> ((False, 0, Some e), w\<lparr>faults := fs\<rparr>)
      | _ \<Rightarrow>
         (case find (\<lambda>r. UniqueCode r = uniqueCode) (rows w) of
            None \<Rightarrow> ((False, 0, None), w\<lparr>faults := tl (faults w)\<rparr>)
          | Some r \<Rightarrow> ((True, Price r, None), w\<lparr>faults := tl (faults w)\<rparr>)))"

text \<open>Both hold \<open>dbMutex\<close> around the call, which a sequential model does not see.\<close>

definition insertProduct :: "Env \<Rightarrow> Product \<Rightarrow> World \<Rightarrow> error option \<times> World" where
  "insertProduct env product w = executeWithRetry env (InsertProduct product) w"

definition updateProductStatus ::
  "Env \<Rightarrow> string \<Rightarrow> string \<Rightarrow> price \<Rightarrow> World \<Rightarrow> error option \<times> World" where
  "updateProductStatus env uniqueCode status pr w =
     executeWithRetry env (UpdateStatusPrice status pr uniqueCode) w"

section \<open>Document store and local documents\<close>

text \<open>
  \<open>fileExists\<close> is true when \<open>os.Stat\<close> succeeds and false on every error; the file
  system of the model has no error but absence.
\<close>

definition fileExists :: "string \<Rightarrow> World \<Rightarrow> bool" where
  "fileExists filePath w = (files w filePath \<noteq> None)"

text \<open>
  \<open>uploadFile\<close>: the file is opened, the request built in memory and sent; the answer is
  accepted when its status is \<open>http.StatusOK\<close>. Building the multipart body and the
  request works on memory only and is taken to succeed.
\<close>

definition uploadFile :: "Env \<Rightarrow> string \<Rightarrow> World \<Rightarrow> error option \<times> World" where
  "uploadFile env filePath w =
     (if files w filePath = None then (Some (OpenFileFailed filePath), w)
      else
        (let w1 = emit (EvHttpPost filePath) w in
         case http_upload env filePath of
           TransportError \<Rightarrow> (Some ExecuteUploadFailed, w1)
         | Response code \<Rightarrow>
             if code \<noteq> 200 then (Some (UploadFailed code), w1)
             else (None, emit (EvLog (FileUploaded filePath)) w1)))"

text \<open>
  \<open>deleteFile\<close>: the answer \<open>http.StatusNoContent\<close> prints the deletion, any other
  answer prints a failure; both return \<open>nil\<close>. Building the request is taken to succeed.
\<close>

definition deleteFile :: "Env \<Rightarrow> string \<Rightarrow> World \<Rightarrow> error option \<times> World" where
  "deleteFile env documentID w =
     (let w1 = emit (EvHttpDelete documentID) w in
      case http_delete env documentID of
        TransportError \<Rightarrow> (Some ExecuteDeleteFailed, w1)
      | Response code \<Rightarrow>
          if code = 204 then (None, emit (EvLog (DeletedDocument documentID)) w1)
          else (None, emit (EvLog (FailedToDeleteDocument documentID code)) w1))"

definition newline :: string where
  "newline = [CHR 0x0A]"

text \<open>
  \<open>filepath.Join(folderPath, "Prod_" + id + ".txt")\<close>, for an identifier without path
  separators: the join drops the leading \<open>./\<close> of the folder.
\<close>

definition outputFilePath :: "Item \<Rightarrow> string" where
  "outputFilePath item = drop 2 folderPath @ ''/'' @ ''Prod_'' @ ID item @ ''.txt''"

text \<open>
  The document of an item. \<open>spec\<close> is what \<open>fetchSpecification\<close> gave: the texts of
  the keys \<open>specification\<close> and \<open>category\<close>. Of the keys of \<open>itemDict\<close> the last loop
  prints only \<open>specification\<close>, the others being excluded by name.
\<close>

definition formattedItem :: "Env \<Rightarrow> Item \<Rightarrow> (string \<times> string) option \<Rightarrow> string" where
  "formattedItem env item spec =
     ''[TITLE] '' @ Title item @ newline @
     ''[Price] '' @ sprintf_2f env (Item.Price item) @ newline @
     (case spec of None \<Rightarrow> [] | Some (s, category) \<Rightarrow> ''[Category] '' @ category @ newline) @
     ''[BRAND] '' @ Brand item @ newline @
     newline @ ''[CONTENT] '' @ newline @
     ''[DESCRIPTION] '' @ Description item @ newline @
     ''[LINK] '' @ Link item @ newline @
     ''[IMAGE LINK] '' @ ImageLink item @ newline @
     ''[AVAILABILITY] '' @ Availability item @ newline @
     ''[GTIN] '' @ GTIN item @ newline @
     ''[ID] '' @ ID item @ newline @
     ''[SKU] '' @ Item.MPN item @ newline @
     (case spec of None \<Rightarrow> [] | Some (s, category) \<Rightarrow> ''[Specification] '' @ s @ newline)"

definition fetchSpecification :: "Env \<Rightarrow> string \<Rightarrow> World \<Rightarrow> (string \<times> string) option \<times> World" where
  "fetchSpecification env url w = (chromedp_run env url, emit (EvFetchSpecification url) w)"

definition writeFile :: "Env \<Rightarrow> string \<Rightarrow> string \<Rightarrow> World \<Rightarrow> bool \<times> World" where
  "writeFile env path content w =
     (let w1 = emit (EvWriteFile path content) w in
      if write_ok env path then (True, w1\<lparr>files := (files w1)(path \<mapsto> content)\<rparr>)
      else (False, w1))"

definition processItem :: "Env \<Rightarrow> Item \<Rightarrow> World \<Rightarrow> error option \<times> World" where
  "processItem env item w =
     (if fileExists (outputFilePath item) w then (None, w)
      else
        (let (specData, w1) = fetchSpecification env (Link item) w;
             w2 = (case specData of
                     None \<Rightarrow> emit (EvLog (FailedToFetchSpecification (Link item))) w1
                   | Some d \<Rightarrow> w1);
             (ok, w3) = writeFile env (outputFilePath item) (formattedItem env item specData) w2
         in
           if \<not> ok then
             (Some (WriteProductFileFailed (outputFilePath item)),
              emit (EvLog (FailedToWriteProductFile (outputFilePath item))) w3)
           else
             (let (err, w4) = uploadFile env (outputFilePath item) w3 in
              case err of
                Some e \<Rightarrow>
                  (Some (UploadProductFileFailed (outputFilePath item) e),
                   emit (EvLog (FailedToUploadProductFile (outputFilePath item))) w4)
              | None \<Rightarrow> (None, emit (EvLog (ProcessedAndUploaded (ID item))) w4))))"

section \<open>The worker\<close>

definition newProduct :: "Item \<Rightarrow> Product" where
  "newProduct item =
     \<lparr>UniqueCode = ID item, Price = Item.Price item, MPN = Item.MPN item, Status = ''new''\<rparr>"

definition logFailure :: "error option \<Rightarrow> World \<Rightarrow> World" where
  "logFailure err w = (case err of None \<Rightarrow> w | Some e \<Rightarrow> emit (EvLog (FailedToProcessItem e)) w)"

text \<open>
  The body of \<open>worker\<close>, which runs with the run-wide mutex held from its first
  statement to its return. In the branch of a changed price the result of the update is
  overwritten by the result of \<open>deleteFile\<close>.
\<close>

definition worker :: "Env \<Rightarrow> Item \<Rightarrow> World \<Rightarrow> World" where
  "worker env item w =
     (let ((exists, pr, err), w1) = productExists (ID item) w in
      case err of
        Some e \<Rightarrow> emit (EvLog (ErrorCheckingExistence e)) w1
      | None \<Rightarrow>
          if exists then
            if pr = Item.Price item then
              (let (err1, w2) = updateProductStatus env (ID item) ''existing'' (Item.Price item) w1
               in logFailure err1 w2)
            else
              (let (err1, w2) = updateProductStatus env (ID item) ''updated'' (Item.Price item) w1;
                   (err2, w3) = deleteFile env (ID item) w2;
                   w4 = (case err2 of
                           None \<Rightarrow> w3
                         | Some e \<Rightarrow> emit (EvLog (FailedToDeleteDocumentErr (ID item) e)) w3);
                   (err3, w5) = insertProduct env (newProduct item) w4;
                   (err4, w6) = (if err3 = None then processItem env item w5 else (err3, w5))
               in logFailure err4 w6)
          else
            (let (err1, w2) = insertProduct env (newProduct item) w1;
                 (err2, w3) = (if err1 = None then processItem env item w2 else (err1, w2))
             in logFailure err2 w3))"

section \<open>The run: bounded dispatch and completion barrier\<close>

text \<open>
  \<open>processXMLData\<close> after parsing. The main goroutine loops over the items: it sends a
  token to the channel \<open>sem\<close> of capacity \<open>maxWorkers\<close> (blocking while the channel is
  full), adds one to the wait group and starts a goroutine; after the loop it waits for
  the wait group to reach zero. A goroutine locks the run-wide mutex, runs the body of
  \<open>worker\<close>, and on return runs its deferred calls in reverse order of registration:
  unlock, \<open>wg.Done()\<close>, and at last the receive from \<open>sem\<close>.
\<close>

datatype main_pc = MLoop | MAcquired Item | MAdded Item | MReturned

datatype gphase = GStart | GLocked | GWorked | GUnlocked | GDone

text \<open>
  \<open>finished\<close> is not in the source: it lists the items whose worker body has run, in the
  order in which they ran.
\<close>

record Sched =
  pending :: "Item list"
  mpc :: main_pc
  sem :: nat
  wg :: int
  locked :: bool
  goroutines :: "(Item \<times> gphase) list"
  world :: World
  finished :: "Item list"

definition init :: "Item list \<Rightarrow> World \<Rightarrow> Sched" where
  "init items w =
     \<lparr>pending = items, mpc = MLoop, sem = 0, wg = 0, locked = False, goroutines = [],
      world = w, finished = []\<rparr>"

inductive step :: "Env \<Rightarrow> Sched \<Rightarrow> Sched \<Rightarrow> bool" for env :: Env where
  m_send:
    "mpc s = MLoop \<Longrightarrow> pending s = item # rest \<Longrightarrow> sem s < maxWorkers \<Longrightarrow>
     step env s (s\<lparr>pending := rest, sem := sem s + 1, mpc := MAcquired item\<rparr>)"
| m_add:
    "mpc s = MAcquired item \<Longrightarrow>
     step env s (s\<lparr>wg := wg s + 1, mpc := MAdded item\<rparr>)"
| m_go:
    "mpc s = MAdded item \<Longrightarrow>
     step env s (s\<lparr>goroutines := goroutines s @ [(item, GStart)], mpc := MLoop\<rparr>)"
| m_wait:
    "mpc s = MLoop \<Longrightarrow> pending s = [] \<Longrightarrow> wg s = 0 \<Longrightarrow>
     step env s (s\<lparr>mpc := MReturned\<rparr>)"
| g_lock:
    "goroutines s = gs1 @ (item, GStart) # gs2 \<Longrightarrow> \<not> locked s \<Longrightarrow>
     step env s (s\<lparr>goroutines := gs1 @ (item, GLocked) # gs2, locked := True\<rparr>)"
| g_body:
    "goroutines s = gs1 @ (item, GLocked) # gs2 \<Longrightarrow>
     step env s (s\<lparr>goroutines := gs1 @ (item, GWorked) # gs2,
                    world := worker env item (world s),
                    finished := finished s @ [item]\<rparr>)"
| g_unlock:
    "goroutines s = gs1 @ (item, GWorked) # gs2 \<Longrightarrow>
     step env s (s\<lparr>goroutines := gs1 @ (item, GUnlocked) # gs2, locked := False\<rparr>)"
| g_done:
    "goroutines s = gs1 @ (item, GUnlocked) # gs2 \<Longrightarrow>
     step env s (s\<lparr>goroutines := gs1 @ (item, GDone) # gs2, wg := wg s - 1\<rparr>)"
| g_recv:
    "goroutines s = gs1 @ (item, GDone) # gs2 \<Longrightarrow> 0 < sem s \<Longrightarrow>
     step env s (s\<lparr>goroutines := gs1 @ gs2, sem := sem s - 1\<rparr>)"

text \<open>The states a run of \<open>processXMLData\<close> on \<open>items\<close> can be in, from the world \<open>w\<close>.\<close>

definition reachable :: "Env \<Rightarrow> Item list \<Rightarrow> World \<Rightarrow> Sched \<Rightarrow> bool" where
  "reachable env items w s = (step env)\<^sup>*\<^sup>* (init items w) s"

text \<open>The worker bodies run one after the other, in some order.\<close>

definition runWorkers :: "Env \<Rightarrow> Item list \<Rightarrow> World \<Rightarrow> World" where
  "runWorkers env order w = foldl (\<lambda>w' item. worker env item w') w order"

text \<open>A goroutine is inside its processing sequence until its worker has returned.\<close>

definition inProcessing :: "Sched \<Rightarrow> nat" where
  "inProcessing s = length (filter (\<lambda>g. snd g \<noteq> GDone) (goroutines s))"

text \<open>The item the main goroutine holds between its send to \<open>sem\<close> and the start of the goroutine.\<close>

fun held :: "main_pc \<Rightarrow> Item list" where
  "held (MAcquired item) = [item]"
| "held (MAdded item) = [item]"
| "held pc = []"

text \<open>The wait group counts the goroutines that have not called \<open>Done\<close>, and the item just added.\<close>

fun added :: "main_pc \<Rightarrow> int" where
  "added (MAdded item) = 1"
| "added pc = 0"

text \<open>
  What holds in every state of a run on \<open>items\<close> from the world \<open>w0\<close>: every live goroutine
  holds one token of \<open>sem\<close>; the wait group counts the goroutines still in processing; the
  mutex is held exactly while one goroutine is between lock and unlock; every item is
  pending, held by the main goroutine, waiting for its worker body, or finished; the world
  is the result of the finished worker bodies in their order; the main goroutine has
  returned only with nothing pending and the wait group at zero.
\<close>

definition run_inv :: "Env \<Rightarrow> Item list \<Rightarrow> World \<Rightarrow> Sched \<Rightarrow> bool" where
  "run_inv env items w0 s \<longleftrightarrow>
     sem s = length (goroutines s) + length (held (mpc s)) \<and>
     sem s \<le> maxWorkers \<and>
     wg s = int (inProcessing s) + added (mpc s) \<and>
     length (filter (\<lambda>g. snd g = GLocked \<or> snd g = GWorked) (goroutines s)) =
       (if locked s then 1 else 0) \<and>
     mset items =
       mset (pending s) + mset (held (mpc s)) +
       mset (map fst (filter (\<lambda>g. snd g = GStart \<or> snd g = GLocked) (goroutines s))) +
       mset (finished s) \<and>
     world s = runWorkers env (finished s) w0 \<and>
     (mpc s = MReturned \<longrightarrow> pending s = [] \<and> wg s = 0)"

section \<open>Kinds of events\<close>

fun is_store_call :: "event \<Rightarrow> bool" where
  "is_store_call (EvHttpDelete d) = True"
| "is_store_call (EvHttpPost f) = True"
| "is_store_call e = False"

fun is_upload :: "event \<Rightarrow> bool" where
  "is_upload (EvHttpPost f) = True"
| "is_upload e = False"

fun is_enrichment :: "event \<Rightarrow> bool" where
  "is_enrichment (EvFetchSpecification u) = True"
| "is_enrichment e = False"

fun is_local_write :: "event \<Rightarrow> bool" where
  "is_local_write (EvWriteFile f c) = True"
| "is_local_write e = False"

fun is_sleep :: "event \<Rightarrow> bool" where
  "is_sleep (EvSleep n) = True"
| "is_sleep e = False"

text \<open>The sleeps of \<open>k\<close> failed attempts, the first of them being attempt \<open>i\<close>.\<close>

definition backoff :: "nat \<Rightarrow> nat \<Rightarrow> event list" where
  "backoff i k = map (\<lambda>j. EvSleep ((j + 1) * 100)) [i..<i + k]"

text \<open>The update of one row by \<open>UPDATE products SET status = ?, price = ? WHERE unique_code = ?\<close>.\<close>

definition upd :: "string \<Rightarrow> string \<Rightarrow> price \<Rightarrow> Product \<Rightarrow> Product" where
  "upd c st pr r = (if UniqueCode r = c then r\<lparr>Status := st, Price := pr\<rparr> else r)"

section \<open>Sample inputs\<close>

definition constEnv :: "bool \<Rightarrow> nat \<Rightarrow> nat \<Rightarrow> Env" where
  "constEnv key del up =
     \<lparr>unique_code_is_key = key,
      http_delete = (\<lambda>d. Response del),
      http_upload = (\<lambda>f. Response up),
      chromedp_run = (\<lambda>u. Some (''spec'', ''cat'')),
      write_ok = (\<lambda>f. True),
      sprintf_2f = (\<lambda>p. ''0.00'')\<rparr>"

definition noAnswer :: "Env \<Rightarrow> Env" where
  "noAnswer env = env\<lparr>http_delete := (\<lambda>d. TransportError), http_upload := (\<lambda>f. TransportError)\<rparr>"

definition itemC :: "price \<Rightarrow> Item" where
  "itemC p =
     \<lparr>ID = ''C'', Title = ''t'', Description = ''d'', Price = p, Link = ''l'',
      ImageLink = ''i'', Brand = ''b'', MPN = ''m'', GTIN = ''g'', Availability = ''a'',
      Condition = ''c'', Inventory = 1\<rparr>"

definition rowC :: "price \<Rightarrow> string \<Rightarrow> Product" where
  "rowC p st = \<lparr>UniqueCode = ''C'', Price = p, MPN = ''m'', Status = st\<rparr>"

definition rowD :: Product where
  "rowD = \<lparr>UniqueCode = ''D'', Price = 3, MPN = ''n'', Status = ''new''\<rparr>"

definition worldOf :: "Product list \<Rightarrow> error option list \<Rightarrow> World" where
  "worldOf rs fs = \<lparr>rows = rs, faults = fs, files = Map.empty, trace = []\<rparr>"

definition withFile :: "string \<Rightarrow> World \<Rightarrow> World" where
  "withFile path w = w\<lparr>files := (files w)(path \<mapsto> ''old'')\<rparr>"

section \<open>The retry loop\<close>

lemma backoff_Suc: "backoff i (Suc k) = EvSleep ((i + 1) * 100) # backoff (Suc i) k"
  by (simp add: backoff_def upt_rec)

lemma loop_transient:
  "faults w = map Some es @ rest \<Longrightarrow> \<forall>e\<in>set es. is_busy_or_locked e \<Longrightarrow>
   i + length es \<le> maxRetries \<Longrightarrow>
   executeWithRetry_loop env q i err w =
     executeWithRetry_loop env q (i + length es) (if es = [] then err else Some (last es))
       (w\<lparr>faults := rest, trace := trace w @ backoff i (length es)\<rparr>)"
proof (induction es arbitrary: i err w)
  case Nil
  then have "w\<lparr>faults := rest, trace := trace w @ backoff i 0\<rparr> = w"
    by (simp add: backoff_def)
  then show ?case by simp
next
  case (Cons e es)
  have lt: "i < maxRetries" using Cons.prems(3) by simp
  let ?w1 = "emit (EvSleep ((i + 1) * 100)) (w\<lparr>faults := map Some es @ rest\<rparr>)"
  have ex: "db_Exec env q w = (Some e, w\<lparr>faults := map Some es @ rest\<rparr>)"
    using Cons.prems(1) by (simp add: db_Exec_def)
  have step: "executeWithRetry_loop env q i err w = executeWithRetry_loop env q (i + 1) (Some e) ?w1"
    using lt ex Cons.prems(2) by (subst executeWithRetry_loop.simps) simp
  have ih: "executeWithRetry_loop env q (i + 1) (Some e) ?w1 =
     executeWithRetry_loop env q (i + 1 + length es) (if es = [] then Some e else Some (last es))
       (?w1\<lparr>faults := rest, trace := trace ?w1 @ backoff (i + 1) (length es)\<rparr>)"
    using Cons.prems by (intro Cons.IH) (simp_all add: emit_def)
  show ?case
    unfolding step ih by (simp add: emit_def backoff_Suc)
qed

lemma db_Exec_run:
  "faults w = [] \<or> hd (faults w) = None \<Longrightarrow>
   db_Exec env q w =
     (case apply_stmt (unique_code_is_key env) q (rows w) of
        Inl e \<Rightarrow> (Some e, w\<lparr>faults := tl (faults w)\<rparr>)
      | Inr rs \<Rightarrow> (None, w\<lparr>faults := tl (faults w), rows := rs\<rparr>))"
  by (cases "faults w") (auto simp: db_Exec_def split: option.splits)

lemma db_Exec_fault:
  "faults w = Some e # fs \<Longrightarrow> db_Exec env q w = (Some e, w\<lparr>faults := fs\<rparr>)"
  by (simp add: db_Exec_def)

text \<open>
  The loop as a whole, when the driver answers the first attempts with the errors \<open>es\<close>,
  all of them busy or locked.
\<close>

lemma executeWithRetry_policy:
  assumes f: "faults w = map Some es @ rest"
    and t: "\<forall>e\<in>set es. is_busy_or_locked e"
  shows
    "(length es \<le> 4 \<and> (rest = [] \<or> hd rest = None) \<and>
        apply_stmt (unique_code_is_key env) q (rows w) = Inr rs \<longrightarrow>
      executeWithRetry env q w =
        (None, w\<lparr>faults := tl rest, rows := rs,
                 trace := trace w @ map (\<lambda>i. EvSleep ((i + 1) * 100)) [0..<length es]\<rparr>)) \<and>
     (length es = 5 \<longrightarrow>
      executeWithRetry env q w =
        (Some (QueryFailedAfterRetries 5 (Some (last es))),
         w\<lparr>faults := rest,
           trace := trace w @ map (\<lambda>i. EvSleep ((i + 1) * 100)) [0..<5]\<rparr>)) \<and>
     (\<forall>e fs. length es \<le> 4 \<and> rest = Some e # fs \<and> \<not> is_busy_or_locked e \<longrightarrow>
      executeWithRetry env q w =
        (Some e, w\<lparr>faults := fs,
                   trace := trace w @ map (\<lambda>i. EvSleep ((i + 1) * 100)) [0..<length es]\<rparr>))"
proof (intro conjI impI allI)
  assume a: "length es \<le> 4 \<and> (rest = [] \<or> hd rest = None) \<and>
        apply_stmt (unique_code_is_key env) q (rows w) = Inr rs"
  let ?w = "w\<lparr>faults := rest, trace := trace w @ backoff 0 (length es)\<rparr>"
  have "executeWithRetry env q w =
      executeWithRetry_loop env q (length es) (if es = [] then None else Some (last es)) ?w"
    unfolding executeWithRetry_def using loop_transient [OF f t, of 0 env q None] a
    by (simp add: maxRetries_def)
  also have "\<dots> = (None, ?w\<lparr>faults := tl rest, rows := rs\<rparr>)"
    using a by (subst executeWithRetry_loop.simps) (simp add: maxRetries_def db_Exec_run)
  finally show "executeWithRetry env q w =
        (None, w\<lparr>faults := tl rest, rows := rs,
                 trace := trace w @ map (\<lambda>i. EvSleep ((i + 1) * 100)) [0..<length es]\<rparr>)"
    by (simp add: backoff_def)
next
  assume a: "length es = 5"
  let ?w = "w\<lparr>faults := rest, trace := trace w @ backoff 0 (length es)\<rparr>"
  have ne: "es \<noteq> []" using a by auto
  have "executeWithRetry env q w =
      executeWithRetry_loop env q (length es) (if es = [] then None else Some (last es)) ?w"
    unfolding executeWithRetry_def using loop_transient [OF f t, of 0 env q None] a
    by (simp add: maxRetries_def)
  also have "\<dots> = (Some (QueryFailedAfterRetries 5 (Some (last es))), ?w)"
    using a ne by (subst executeWithRetry_loop.simps) (simp add: maxRetries_def)
  finally show "executeWithRetry env q w =
        (Some (QueryFailedAfterRetries 5 (Some (last es))),
         w\<lparr>faults := rest,
           trace := trace w @ map (\<lambda>i. EvSleep ((i + 1) * 100)) [0..<5]\<rparr>)"
    using a by (simp add: backoff_def)
next
  fix e fs
  assume a: "length es \<le> 4 \<and> rest = Some e # fs \<and> \<not> is_busy_or_locked e"
  let ?w = "w\<lparr>faults := rest, trace := trace w @ backoff 0 (length es)\<rparr>"
  have "executeWithRetry env q w =
      executeWithRetry_loop env q (length es) (if es = [] then None else Some (last es)) ?w"
    unfolding executeWithRetry_def using loop_transient [OF f t, of 0 env q None] a
    by (simp add: maxRetries_def)
  also have "\<dots> = (Some e, ?w\<lparr>faults := fs\<rparr>)"
    using a by (subst executeWithRetry_loop.simps) (simp add: maxRetries_def db_Exec_fault)
  finally show "executeWithRetry env q w =
        (Some e, w\<lparr>faults := fs,
                   trace := trace w @ map (\<lambda>i. EvSleep ((i + 1) * 100)) [0..<length es]\<rparr>)"
    by (simp add: backoff_def)
qed


text \<open>
  C4, as the code has it. The mutating calls of a worker are \<open>insertProduct\<close> and
  \<open>updateProductStatus\<close>. Let the driver answer the first attempts of such a call with the
  errors \<open>es\<close>, all of them busy or locked. With at most 4 of them and a statement that
  then runs, the call reports success and the statement has taken effect once. With 5 of
  them the call returns the error of the exhausted budget and makes no sixth attempt. An
  error that is neither busy nor locked, met on one of the first five attempts, is
  returned at once. The sleep after the failed attempt of index \<open>i\<close> is
  \<open>(i + 1) * 100\<close> milliseconds. \<open>markAllRecordsAsDeleted\<close> makes one attempt: whatever
  error the driver answers, busy and locked included, is returned at once, with no sleep
  and nothing marked.
\<close>

theorem mutating_call_retry_policy:
  assumes c: "(call = insertProduct env pd \<and> q = InsertProduct pd) \<or>
              (call = updateProductStatus env code st pr \<and> q = UpdateStatusPrice st pr code)"
    and f: "faults w = map Some es @ rest"
    and t: "\<forall>e\<in>set es. is_busy_or_locked e"
  shows
    "(length es \<le> 4 \<and> (rest = [] \<or> hd rest = None) \<and>
        apply_stmt (unique_code_is_key env) q (rows w) = Inr rs \<longrightarrow>
      call w =
        (None, w\<lparr>faults := tl rest, rows := rs,
                 trace := trace w @ map (\<lambda>i. EvSleep ((i + 1) * 100)) [0..<length es]\<rparr>)) \<and>
     (length es = 5 \<longrightarrow>
      call w =
        (Some (QueryFailedAfterRetries 5 (Some (last es))),
         w\<lparr>faults := rest,
           trace := trace w @ map (\<lambda>i. EvSleep ((i + 1) * 100)) [0..<5]\<rparr>)) \<and>
     (\<forall>e fs. length es \<le> 4 \<and> rest = Some e # fs \<and> \<not> is_busy_or_locked e \<longrightarrow>
      call w =
        (Some e, w\<lparr>faults := fs,
                   trace := trace w @ map (\<lambda>i. EvSleep ((i + 1) * 100)) [0..<length es]\<rparr>)) \<and>
     (\<forall>e fs. faults w = Some e # fs \<longrightarrow>
      markAllRecordsAsDeleted env w = (Some e, w\<lparr>faults := fs\<rparr>))"
proof -
  have call: "call w = executeWithRetry env q w"
    using c by (auto simp: insertProduct_def updateProductStatus_def)
  have m: "\<forall>e fs. faults w = Some e # fs \<longrightarrow>
      markAllRecordsAsDeleted env w = (Some e, w\<lparr>faults := fs\<rparr>)"
    by (simp add: markAllRecordsAsDeleted_def db_Exec_fault)
  show ?thesis
    unfolding call using executeWithRetry_policy [OF f t, of env q rs] m by simp
qed

theorem mutating_call_retry_policy_witness:
  "updateProductStatus (constEnv True 204 200) ''D'' ''existing'' 3
     (worldOf [rowD] [Some (SqliteError ErrBusy), Some (SqliteError ErrLocked),
        Some (SqliteError ErrBusy), Some (SqliteError ErrBusy)]) =
   (None, \<lparr>rows = [rowD\<lparr>Status := ''existing''\<rparr>], faults = [], files = Map.empty,
      trace = [EvSleep 100, EvSleep 200, EvSleep 300, EvSleep 400]\<rparr>) \<and>
   insertProduct (constEnv True 204 200) (rowC 5 ''new'')
     (worldOf [rowD] [Some (SqliteError ErrBusy), Some (SqliteError ErrLocked),
        Some (SqliteError ErrBusy), Some (SqliteError ErrBusy), Some (SqliteError ErrLocked), None]) =
   (Some (QueryFailedAfterRetries 5 (Some (SqliteError ErrLocked))),
     \<lparr>rows = [rowD], faults = [None], files = Map.empty,
      trace = [EvSleep 100, EvSleep 200, EvSleep 300, EvSleep 400, EvSleep 500]\<rparr>) \<and>
   insertProduct (constEnv True 204 200) (rowC 5 ''new'')
     (worldOf [rowD] [Some (SqliteError ErrBusy), Some (SqliteError ErrIoErr), None]) =
   (Some (SqliteError ErrIoErr),
     \<lparr>rows = [rowD], faults = [None], files = Map.empty, trace = [EvSleep 100]\<rparr>) \<and>
   markAllRecordsAsDeleted (constEnv True 204 200)
     (worldOf [rowD] [Some (SqliteError ErrBusy), Some (SqliteError ErrIoErr), None]) =
   (Some (SqliteError ErrBusy), worldOf [rowD] [Some (SqliteError ErrIoErr), None])"
  using
    mutating_call_retry_policy [where call = "updateProductStatus (constEnv True 204 200) ''D'' ''existing'' 3"
      and env = "constEnv True 204 200" and code = "''D''" and st = "''existing''" and pr = 3
      and q = "UpdateStatusPrice ''existing'' 3 ''D''" and pd = rowD
      and w = "worldOf [rowD] [Some (SqliteError ErrBusy), Some (SqliteError ErrLocked),
        Some (SqliteError ErrBusy), Some (SqliteError ErrBusy)]"
      and es = "[SqliteError ErrBusy, SqliteError ErrLocked, SqliteError ErrBusy, SqliteError ErrBusy]"
      and rest = "[]" and rs = "[rowD\<lparr>Status := ''existing''\<rparr>]"]
    mutating_call_retry_policy [where call = "insertProduct (constEnv True 204 200) (rowC 5 ''new'')"
      and env = "constEnv True 204 200" and code = "''D''" and st = "''existing''" and pr = 3
      and q = "InsertProduct (rowC 5 ''new'')" and pd = "rowC 5 ''new''"
      and w = "worldOf [rowD] [Some (SqliteError ErrBusy), Some (SqliteError ErrLocked),
        Some (SqliteError ErrBusy), Some (SqliteError ErrBusy), Some (SqliteError ErrLocked), None]"
      and es = "[SqliteError ErrBusy, SqliteError ErrLocked, SqliteError ErrBusy, SqliteError ErrBusy,
        SqliteError ErrLocked]"
      and rest = "[None]" and rs = "[]"]
    mutating_call_retry_policy [where call = "insertProduct (constEnv True 204 200) (rowC 5 ''new'')"
      and env = "constEnv True 204 200" and code = "''D''" and st = "''existing''" and pr = 3
      and q = "InsertProduct (rowC 5 ''new'')" and pd = "rowC 5 ''new''"
      and w = "worldOf [rowD] [Some (SqliteError ErrBusy), Some (SqliteError ErrIoErr), None]"
      and es = "[SqliteError ErrBusy]"
      and rest = "[Some (SqliteError ErrIoErr), None]" and rs = "[]"]
  by (simp add: worldOf_def is_busy_or_locked_def constEnv_def rowD_def upt_rec)

text \<open>
  One busy answer, after which the statement would run: a mutating call with the retry
  loop succeeds after one sleep, the marking of all records fails at once.
\<close>

theorem markAllRecordsAsDeleted_counterexample:
  "is_busy_or_locked (SqliteError ErrBusy) \<and>
   updateProductStatus (constEnv True 204 200) ''D'' ''deleted'' 3
     (worldOf [rowD] [Some (SqliteError ErrBusy)]) =
   (None, \<lparr>rows = [rowD\<lparr>Status := ''deleted''\<rparr>], faults = [], files = Map.empty,
      trace = [EvSleep 100]\<rparr>) \<and>
   markAllRecordsAsDeleted (constEnv True 204 200) (worldOf [rowD] [Some (SqliteError ErrBusy)]) =
   (Some (SqliteError ErrBusy), worldOf [rowD] [])"
  by (simp add: markAllRecordsAsDeleted_def updateProductStatus_def executeWithRetry_def
      executeWithRetry_loop.simps maxRetries_def db_Exec_def emit_def is_busy_or_locked_def
      worldOf_def constEnv_def rowD_def)

section \<open>What a store call can change\<close>

lemma db_Exec_effect:
  assumes "db_Exec env q w = (r, w')"
  shows "files w' = files w \<and> trace w' = trace w \<and>
         ((r = None \<and> apply_stmt (unique_code_is_key env) q (rows w) = Inr (rows w')) \<or>
          (r \<noteq> None \<and> rows w' = rows w))"
  using assms
  by (auto simp: db_Exec_def split: list.splits option.splits sum.splits)

lemma executeWithRetry_loop_effect:
  "executeWithRetry_loop env q i err w = (r, w') \<Longrightarrow>
   files w' = files w \<and>
   (\<exists>evs. trace w' = trace w @ evs \<and> (\<forall>e\<in>set evs. is_sleep e)) \<and>
   ((r = None \<and> apply_stmt (unique_code_is_key env) q (rows w) = Inr (rows w')) \<or>
    (r \<noteq> None \<and> rows w' = rows w))"
proof (induction env q i err w rule: executeWithRetry_loop.induct)
  case (1 env q i err w)
  show ?case
  proof (cases "i < maxRetries")
    case False
    with "1.prems" show ?thesis
      by (auto simp: executeWithRetry_loop.simps)
  next
    case True
    obtain r1 w1 where ex: "db_Exec env q w = (r1, w1)" by (cases "db_Exec env q w")
    note eff = db_Exec_effect [OF ex]
    show ?thesis
    proof (cases r1)
      case None
      with True ex "1.prems" have "r = None" "w' = w1"
        by (simp_all add: executeWithRetry_loop.simps)
      with eff None show ?thesis by auto
    next
      case (Some e)
      show ?thesis
      proof (cases "is_busy_or_locked e")
        case False
        with True ex Some "1.prems" have "r = Some e" "w' = w1"
          by (simp_all add: executeWithRetry_loop.simps)
        with eff Some show ?thesis by auto
      next
        case busy: True
        let ?w2 = "emit (EvSleep ((i + 1) * 100)) w1"
        have rec: "executeWithRetry_loop env q (i + 1) (Some e) ?w2 = (r, w')"
          using True ex Some busy "1.prems" by (simp add: executeWithRetry_loop.simps)
        have ih: "files w' = files ?w2 \<and>
          (\<exists>evs. trace w' = trace ?w2 @ evs \<and> (\<forall>e\<in>set evs. is_sleep e)) \<and>
          ((r = None \<and> apply_stmt (unique_code_is_key env) q (rows ?w2) = Inr (rows w')) \<or>
           (r \<noteq> None \<and> rows w' = rows ?w2))"
          using "1.IH" [OF True ex [symmetric] refl Some busy rec] .
        then obtain evs where evs: "trace w' = trace ?w2 @ evs" "\<forall>e\<in>set evs. is_sleep e"
          by blast
        have rw: "rows w1 = rows w" using eff Some by auto
        have "trace w' = trace w @ (EvSleep ((i + 1) * 100) # evs)"
          using evs(1) eff by (simp add: emit_def)
        moreover have "\<forall>e\<in>set (EvSleep ((i + 1) * 100) # evs). is_sleep e"
          using evs(2) by simp
        ultimately have tr: "\<exists>evs. trace w' = trace w @ evs \<and> (\<forall>e\<in>set evs. is_sleep e)"
          by blast
        show ?thesis using ih tr eff rw by (simp add: emit_def)
      qed
    qed
  qed
qed

lemma executeWithRetry_effect:
  "executeWithRetry env q w = (r, w') \<Longrightarrow>
   files w' = files w \<and>
   (\<exists>evs. trace w' = trace w @ evs \<and> (\<forall>e\<in>set evs. is_sleep e)) \<and>
   ((r = None \<and> apply_stmt (unique_code_is_key env) q (rows w) = Inr (rows w')) \<or>
    (r \<noteq> None \<and> rows w' = rows w))"
  unfolding executeWithRetry_def by (rule executeWithRetry_loop_effect)

section \<open>Produce and publish\<close>

lemma uploadFile_files: "uploadFile env f w = (r, w') \<Longrightarrow> files w' = files w"
  by (auto simp: uploadFile_def emit_def Let_def split: http_result.splits if_splits)

lemma processItem_file_written:
  "write_ok env (outputFilePath item) \<Longrightarrow>
   fileExists (outputFilePath item) (snd (processItem env item w))"
  by (auto simp: processItem_def fileExists_def fetchSpecification_def writeFile_def
      emit_def Let_def split: prod.splits option.splits dest!: uploadFile_files)

text \<open>
  C7. The path of the document is a function of the identifier. When the document is
  there, produce-and-publish returns success and leaves the world as it is: no call of
  the browser, no write, no upload. So a second call after one that wrote the document
  does nothing.
\<close>

theorem processItem_existing_document:
  "(ID item = ID item' \<longrightarrow> outputFilePath item = outputFilePath item') \<and>
   (fileExists (outputFilePath item) w \<longrightarrow> processItem env item w = (None, w)) \<and>
   (write_ok env (outputFilePath item) \<longrightarrow>
      processItem env item (snd (processItem env item w)) = (None, snd (processItem env item w)))"
proof (intro conjI impI)
  assume "ID item = ID item'"
  then show "outputFilePath item = outputFilePath item'"
    by (simp add: outputFilePath_def)
next
  assume "fileExists (outputFilePath item) w"
  then show "processItem env item w = (None, w)"
    by (simp add: processItem_def)
next
  assume "write_ok env (outputFilePath item)"
  then have "fileExists (outputFilePath item) (snd (processItem env item w))"
    by (rule processItem_file_written)
  then show "processItem env item (snd (processItem env item w)) =
      (None, snd (processItem env item w))"
    by (simp add: processItem_def)
qed

theorem processItem_existing_document_witness:
  "ID (itemC 5) = ID (itemC 7) \<and> outputFilePath (itemC 5) = ''product/Prod_C.txt'' \<and>
   outputFilePath (itemC 7) = ''product/Prod_C.txt'' \<and>
   fileExists ''product/Prod_C.txt'' (withFile ''product/Prod_C.txt'' (worldOf [] [])) \<and>
   processItem (constEnv True 204 200) (itemC 5) (withFile ''product/Prod_C.txt'' (worldOf [] [])) =
     (None, withFile ''product/Prod_C.txt'' (worldOf [] [])) \<and>
   write_ok (constEnv True 204 200) ''product/Prod_C.txt'' \<and>
   trace (snd (processItem (constEnv True 204 200) (itemC 5)
      (snd (processItem (constEnv True 204 200) (itemC 5) (worldOf [] []))))) =
   trace (snd (processItem (constEnv True 204 200) (itemC 5) (worldOf [] [])))"
  using processItem_existing_document [of "itemC 5" "itemC 7"
      "withFile ''product/Prod_C.txt'' (worldOf [] [])" "constEnv True 204 200"]
    processItem_existing_document [of "itemC 5" "itemC 7" "worldOf [] []" "constEnv True 204 200"]
  by (simp add: itemC_def outputFilePath_def folderPath_def withFile_def worldOf_def
      fileExists_def constEnv_def)

section \<open>Answers of the document store\<close>

text \<open>
  C8, as the code has it. An upload whose file opens and whose request is answered
  reports success exactly when the status is 200; a request that gets no answer is an
  error, and so is a file that does not open, for which no request is sent. A removal returns success for every answer: status 204 prints the deletion,
  any other status prints a failure; only a request that gets no answer is an error.
\<close>

theorem store_operations_report:
  "(files w f \<noteq> None \<and> http_upload env f = Response code \<longrightarrow>
      (fst (uploadFile env f w) = None \<longleftrightarrow> code = 200)) \<and>
   (files w f \<noteq> None \<and> http_upload env f = TransportError \<longrightarrow>
      fst (uploadFile env f w) = Some ExecuteUploadFailed) \<and>
   (files w f = None \<longrightarrow> uploadFile env f w = (Some (OpenFileFailed f), w)) \<and>
   (http_delete env d = Response code \<longrightarrow>
      deleteFile env d w =
        (None, w\<lparr>trace := trace w @
           [EvHttpDelete d,
            EvLog (if code = 204 then DeletedDocument d else FailedToDeleteDocument d code)]\<rparr>)) \<and>
   (http_delete env d = TransportError \<longrightarrow>
      fst (deleteFile env d w) = Some ExecuteDeleteFailed)"
  by (simp add: uploadFile_def deleteFile_def emit_def Let_def)

theorem store_operations_report_witness:
  "files (withFile ''f'' (worldOf [] [])) ''f'' \<noteq> None \<and>
   http_upload (constEnv True 204 200) ''f'' = Response 200 \<and>
   fst (uploadFile (constEnv True 204 200) ''f'' (withFile ''f'' (worldOf [] []))) = None \<and>
   http_delete (constEnv True 204 200) ''C'' = Response 204 \<and>
   deleteFile (constEnv True 204 200) ''C'' (worldOf [] []) =
     (None, (worldOf [] [])\<lparr>trace := [EvHttpDelete ''C'', EvLog (DeletedDocument ''C'')]\<rparr>) \<and>
   files (worldOf [] []) ''f'' = None \<and>
   uploadFile (constEnv True 204 200) ''f'' (worldOf [] []) =
     (Some (OpenFileFailed ''f''), worldOf [] []) \<and>
   http_upload (noAnswer (constEnv True 204 200)) ''f'' = TransportError \<and>
   fst (uploadFile (noAnswer (constEnv True 204 200)) ''f'' (withFile ''f'' (worldOf [] []))) =
     Some ExecuteUploadFailed \<and>
   http_delete (noAnswer (constEnv True 204 200)) ''C'' = TransportError \<and>
   fst (deleteFile (noAnswer (constEnv True 204 200)) ''C'' (worldOf [] [])) = Some ExecuteDeleteFailed"
  using store_operations_report [where w = "withFile ''f'' (worldOf [] [])" and f = "''f''"
      and env = "noAnswer (constEnv True 204 200)" and code = 200 and d = "''C''"]
    store_operations_report [where w = "worldOf [] []" and f = "''f''"
      and env = "noAnswer (constEnv True 204 200)" and code = 200 and d = "''C''"]
    store_operations_report [where w = "withFile ''f'' (worldOf [] [])" and f = "''f''"
      and env = "constEnv True 204 200" and code = 200 and d = "''C''"]
    store_operations_report [where w = "worldOf [] []" and f = "''f''"
      and env = "constEnv True 204 200" and code = 204 and d = "''C''"]
  by (simp add: withFile_def worldOf_def constEnv_def noAnswer_def)

text \<open>
  An answer 201 is a 2xx answer and the upload reports an error; an answer 500 to a
  removal is not "no content" and the removal returns success.
\<close>

theorem store_operations_counterexample:
  "http_upload (constEnv True 204 201) ''f'' = Response 201 \<and> (200::nat) \<le> 201 \<and> (201::nat) < 300 \<and>
   fst (uploadFile (constEnv True 204 201) ''f'' (withFile ''f'' (worldOf [] []))) =
     Some (UploadFailed 201) \<and>
   http_delete (constEnv True 500 200) ''C'' = Response 500 \<and>
   fst (deleteFile (constEnv True 500 200) ''C'' (worldOf [] [])) = None"
  by (simp add: uploadFile_def deleteFile_def emit_def Let_def withFile_def worldOf_def
      constEnv_def)

section \<open>The worker on an item whose price is unchanged\<close>

lemma productExists_effect:
  assumes "productExists c w = ((ex, p, err), w1)"
  shows "rows w1 = rows w \<and> files w1 = files w \<and> trace w1 = trace w"
  using assms
  by (auto simp: productExists_def split: list.splits option.splits)

lemma productExists_found:
  assumes "productExists c w = ((True, p, None), w1)"
  shows "\<exists>r. find (\<lambda>r. UniqueCode r = c) (rows w) = Some r \<and> Price r = p"
  using assms
  by (auto simp: productExists_def split: list.splits option.splits)

lemma updateProductStatus_effect:
  assumes "updateProductStatus env c st pr w = (r, w')"
  shows "files w' = files w \<and>
    (\<exists>evs. trace w' = trace w @ evs \<and> (\<forall>e\<in>set evs. is_sleep e)) \<and>
    ((r = None \<and> rows w' =
        map (\<lambda>x. if UniqueCode x = c then x\<lparr>Status := st, Price := pr\<rparr> else x) (rows w)) \<or>
     (r \<noteq> None \<and> rows w' = rows w))"
  using executeWithRetry_effect [OF assms [unfolded updateProductStatus_def]] by auto

lemma filter_sleeps:
  assumes "\<forall>e\<in>set evs. is_sleep e"
  shows "filter (\<lambda>e. is_store_call e \<or> is_enrichment e \<or> is_local_write e) evs = []"
proof -
  have "\<And>e. is_sleep e \<Longrightarrow> \<not> (is_store_call e \<or> is_enrichment e \<or> is_local_write e)"
    by (case_tac e) simp_all
  with assms show ?thesis by (auto simp: filter_empty_conv)
qed

lemma logFailure_effect:
  "rows (logFailure r w) = rows w \<and> files (logFailure r w) = files w \<and>
   filter (\<lambda>e. is_store_call e \<or> is_enrichment e \<or> is_local_write e) (trace (logFailure r w)) =
   filter (\<lambda>e. is_store_call e \<or> is_enrichment e \<or> is_local_write e) (trace w)"
  by (simp add: logFailure_def emit_def split: option.splits)

lemma find_map_update:
  "find (\<lambda>r. UniqueCode r = c) rs = Some r0 \<Longrightarrow>
   find (\<lambda>r. UniqueCode r = c)
     (map (\<lambda>x. if UniqueCode x = c then x\<lparr>Status := st, Price := pr\<rparr> else x) rs) =
   Some (r0\<lparr>Status := st, Price := pr\<rparr>)"
  by (induction rs) (auto split: if_splits)

lemma map_Price_update:
  "distinct (map UniqueCode rs) \<Longrightarrow> find (\<lambda>r. UniqueCode r = c) rs = Some r0 \<Longrightarrow>
   map Price (map (\<lambda>x. if UniqueCode x = c then x\<lparr>Status := st, Price := Price r0\<rparr> else x) rs) =
   map Price rs"
proof (induction rs)
  case Nil
  then show ?case by simp
next
  case (Cons a rs)
  show ?case
  proof (cases "UniqueCode a = c")
    case True
    with Cons.prems have a: "a = r0" by simp
    have "c \<notin> UniqueCode ` set rs" using True Cons.prems(1) by simp
    then have "\<forall>x\<in>set rs. UniqueCode x \<noteq> c" by blast
    then have "map (\<lambda>x. if UniqueCode x = c then x\<lparr>Status := st, Price := Price r0\<rparr> else x) rs = rs"
      by (simp add: map_idI)
    with True a show ?thesis by simp
  next
    case False
    with Cons show ?thesis by simp
  qed
qed

text \<open>
  C5. The lookup finds a record with the price of the item. The worker then makes no call
  to the document store, no call of the browser and no local write. When the update
  is carried out, every record of the identifier has status \<open>existing\<close>, no identifier
  changes, the record the lookup read keeps its price, and in a table with one record
  per identifier every price is what it was.
\<close>

theorem worker_unchanged_price:
  assumes pe: "productExists (ID item) w = ((True, p, None), w1)"
    and eq: "p = Item.Price item"
  shows
    "filter (\<lambda>e. is_store_call e \<or> is_enrichment e \<or> is_local_write e) (trace (worker env item w)) =
     filter (\<lambda>e. is_store_call e \<or> is_enrichment e \<or> is_local_write e) (trace w) \<and>
     files (worker env item w) = files w \<and>
     (fst (updateProductStatus env (ID item) ''existing'' (Item.Price item) w1) = None \<longrightarrow>
        (\<forall>r\<in>set (rows (worker env item w)). UniqueCode r = ID item \<longrightarrow> Status r = ''existing'') \<and>
        map UniqueCode (rows (worker env item w)) = map UniqueCode (rows w) \<and>
        (\<exists>r0. find (\<lambda>r. UniqueCode r = ID item) (rows w) = Some r0 \<and>
           find (\<lambda>r. UniqueCode r = ID item) (rows (worker env item w)) =
             Some (r0\<lparr>Status := ''existing''\<rparr>)) \<and>
        (distinct (map UniqueCode (rows w)) \<longrightarrow>
           map Price (rows (worker env item w)) = map Price (rows w)))"
proof -
  obtain r w2 where up: "updateProductStatus env (ID item) ''existing'' (Item.Price item) w1 = (r, w2)"
    by (cases "updateProductStatus env (ID item) ''existing'' (Item.Price item) w1")
  have wk: "worker env item w = logFailure r w2"
    using pe eq up by (simp add: worker_def)
  note pef = productExists_effect [OF pe]
  note upf = updateProductStatus_effect [OF up]
  from upf obtain evs where evs: "trace w2 = trace w1 @ evs" "\<forall>e\<in>set evs. is_sleep e"
    by blast
  have tr: "filter (\<lambda>e. is_store_call e \<or> is_enrichment e \<or> is_local_write e) (trace (worker env item w)) =
     filter (\<lambda>e. is_store_call e \<or> is_enrichment e \<or> is_local_write e) (trace w)"
    using wk logFailure_effect [of r w2] evs filter_sleeps [OF evs(2)] pef by simp
  have fl: "files (worker env item w) = files w"
    using wk logFailure_effect [of r w2] upf pef by simp
  have st: "fst (updateProductStatus env (ID item) ''existing'' (Item.Price item) w1) = None \<longrightarrow>
        (\<forall>r\<in>set (rows (worker env item w)). UniqueCode r = ID item \<longrightarrow> Status r = ''existing'') \<and>
        map UniqueCode (rows (worker env item w)) = map UniqueCode (rows w) \<and>
        (\<exists>r0. find (\<lambda>r. UniqueCode r = ID item) (rows w) = Some r0 \<and>
           find (\<lambda>r. UniqueCode r = ID item) (rows (worker env item w)) =
             Some (r0\<lparr>Status := ''existing''\<rparr>)) \<and>
        (distinct (map UniqueCode (rows w)) \<longrightarrow>
           map Price (rows (worker env item w)) = map Price (rows w))"
  proof
    assume "fst (updateProductStatus env (ID item) ''existing'' (Item.Price item) w1) = None"
    with up have rn: "r = None" by simp
    let ?f = "\<lambda>x. if UniqueCode x = ID item then x\<lparr>Status := ''existing'', Price := Item.Price item\<rparr> else x"
    have rw: "rows (worker env item w) = map ?f (rows w)"
      using wk rn upf pef by (simp add: logFailure_def)
    obtain r0 where r0: "find (\<lambda>r. UniqueCode r = ID item) (rows w) = Some r0" "Price r0 = p"
      using productExists_found [OF pe] by blast
    have a: "\<forall>r\<in>set (rows (worker env item w)). UniqueCode r = ID item \<longrightarrow> Status r = ''existing''"
      unfolding rw by auto
    have b: "map UniqueCode (rows (worker env item w)) = map UniqueCode (rows w)"
      unfolding rw by (induction "rows w") auto
    have "r0\<lparr>Status := ''existing'', Price := Item.Price item\<rparr> = r0\<lparr>Status := ''existing''\<rparr>"
      using r0(2) eq by simp
    then have c: "find (\<lambda>r. UniqueCode r = ID item) (rows (worker env item w)) =
             Some (r0\<lparr>Status := ''existing''\<rparr>)"
      unfolding rw using find_map_update [OF r0(1), where st = "''existing''" and pr = "Item.Price item"] by simp
    have pr0: "Item.Price item = Price r0" using r0(2) eq by simp
    have d: "distinct (map UniqueCode (rows w)) \<longrightarrow>
           map Price (rows (worker env item w)) = map Price (rows w)"
    proof
      assume dist: "distinct (map UniqueCode (rows w))"
      show "map Price (rows (worker env item w)) = map Price (rows w)"
        unfolding rw pr0 by (rule map_Price_update [OF dist r0(1)])
    qed
    show "(\<forall>r\<in>set (rows (worker env item w)). UniqueCode r = ID item \<longrightarrow> Status r = ''existing'') \<and>
        map UniqueCode (rows (worker env item w)) = map UniqueCode (rows w) \<and>
        (\<exists>r0. find (\<lambda>r. UniqueCode r = ID item) (rows w) = Some r0 \<and>
           find (\<lambda>r. UniqueCode r = ID item) (rows (worker env item w)) =
             Some (r0\<lparr>Status := ''existing''\<rparr>)) \<and>
        (distinct (map UniqueCode (rows w)) \<longrightarrow>
           map Price (rows (worker env item w)) = map Price (rows w))"
      using a b c d r0(1) by blast
  qed
  show ?thesis using tr fl st by blast
qed

theorem worker_unchanged_price_witness:
  "productExists (ID (itemC 20)) (worldOf [rowD, rowC 20 ''deleted''] []) =
     ((True, 20, None), worldOf [rowD, rowC 20 ''deleted''] []) \<and>
   (20::rat) = Item.Price (itemC 20) \<and>
   fst (updateProductStatus (constEnv True 204 200) (ID (itemC 20)) ''existing'' (Item.Price (itemC 20))
     (worldOf [rowD, rowC 20 ''deleted''] [])) = None \<and>
   distinct (map UniqueCode (rows (worldOf [rowD, rowC 20 ''deleted''] []))) \<and>
   trace (worker (constEnv True 204 200) (itemC 20) (worldOf [rowD, rowC 20 ''deleted''] [])) = [] \<and>
   rows (worker (constEnv True 204 200) (itemC 20) (worldOf [rowD, rowC 20 ''deleted''] [])) =
     [rowD, rowC 20 ''existing'']"
proof -
  have pe: "productExists (ID (itemC 20)) (worldOf [rowD, rowC 20 ''deleted''] []) =
     ((True, 20, None), worldOf [rowD, rowC 20 ''deleted''] [])"
    by (simp add: productExists_def worldOf_def itemC_def rowD_def rowC_def)
  have eq: "(20::rat) = Item.Price (itemC 20)"
    by (simp add: itemC_def)
  have up: "updateProductStatus (constEnv True 204 200) (ID (itemC 20)) ''existing'' (Item.Price (itemC 20))
     (worldOf [rowD, rowC 20 ''deleted''] []) =
     (None, worldOf [rowD, rowC 20 ''existing''] [])"
    by (simp add: updateProductStatus_def executeWithRetry_def executeWithRetry_loop.simps
        maxRetries_def db_Exec_def worldOf_def itemC_def rowD_def rowC_def)
  have wk: "worker (constEnv True 204 200) (itemC 20) (worldOf [rowD, rowC 20 ''deleted''] []) =
     worldOf [rowD, rowC 20 ''existing''] []"
    by (simp add: worker_def productExists_def updateProductStatus_def executeWithRetry_def
        executeWithRetry_loop.simps maxRetries_def db_Exec_def worldOf_def itemC_def rowD_def
        rowC_def logFailure_def)
  have dist: "distinct (map UniqueCode (rows (worldOf [rowD, rowC 20 ''deleted''] [])))"
    by (simp add: worldOf_def rowD_def rowC_def)
  show ?thesis
    using worker_unchanged_price [OF pe eq, of "constEnv True 204 200"] pe eq up wk dist
    by (simp add: worldOf_def)
qed

section \<open>The worker on an item whose price has changed\<close>

lemma insertProduct_effect:
  assumes "insertProduct env p w = (r, w')"
  shows "files w' = files w \<and>
    (\<exists>evs. trace w' = trace w @ evs \<and> (\<forall>e\<in>set evs. is_sleep e)) \<and>
    ((r = None \<and> rows w' = rows w @ [p] \<and>
        \<not> (unique_code_is_key env \<and> UniqueCode p \<in> set (map UniqueCode (rows w)))) \<or>
     (r \<noteq> None \<and> rows w' = rows w))"
  using executeWithRetry_effect [OF assms [unfolded insertProduct_def]]
  by (auto split: if_splits)

lemma deleteFile_effect:
  assumes "deleteFile env d w = (r, w')"
  shows "files w' = files w \<and> rows w' = rows w \<and>
    (\<exists>m. trace w' = trace w @ EvHttpDelete d # m \<and> (\<forall>e\<in>set m. \<exists>l. e = EvLog l))"
  using assms
  by (auto simp: deleteFile_def emit_def Let_def split: http_result.splits if_splits)

lemma worker_changed_unfold:
  assumes pe: "productExists (ID item) w = ((True, p, None), w1)"
    and ne: "p \<noteq> Item.Price item"
    and up: "updateProductStatus env (ID item) ''updated'' (Item.Price item) w1 = (e1, w2)"
    and de: "deleteFile env (ID item) w2 = (e2, w3)"
    and ins: "insertProduct env (newProduct item)
        (case e2 of None \<Rightarrow> w3
         | Some e \<Rightarrow> emit (EvLog (FailedToDeleteDocumentErr (ID item) e)) w3) = (e3, w5)"
  shows "worker env item w =
    (if e3 = None then logFailure (fst (processItem env item w5)) (snd (processItem env item w5))
     else logFailure e3 w5)"
  using assms by (simp add: worker_def split: prod.splits)

lemma filter_store_sleeps:
  assumes "\<forall>e\<in>set evs. is_sleep e"
  shows "filter is_store_call evs = []"
proof -
  have "\<And>e. is_sleep e \<Longrightarrow> \<not> is_store_call e"
    by (case_tac e) simp_all
  with assms show ?thesis by (auto simp: filter_empty_conv)
qed

lemma filter_store_logs:
  assumes "\<forall>e\<in>set m. \<exists>l. e = EvLog l"
  shows "filter is_store_call m = []"
  using assms by (auto simp: filter_empty_conv)

lemma filter_publish_logs:
  assumes "\<forall>e\<in>set m. \<exists>l. e = EvLog l"
  shows "filter (\<lambda>e. is_upload e \<or> is_enrichment e \<or> is_local_write e) m = []"
  using assms by (auto simp: filter_empty_conv)

lemma filter_publish_sleeps:
  assumes "\<forall>e\<in>set evs. is_sleep e"
  shows "filter (\<lambda>e. is_upload e \<or> is_enrichment e \<or> is_local_write e) evs = []"
proof -
  have "\<And>e. is_sleep e \<Longrightarrow> \<not> (is_upload e \<or> is_enrichment e \<or> is_local_write e)"
    by (case_tac e) simp_all
  with assms show ?thesis by (auto simp: filter_empty_conv)
qed

text \<open>
  What the three store and document-store calls of the changed-price branch leave behind,
  whatever their outcome: the files as they were, one request to the document store (the
  removal), and nothing of produce-and-publish.
\<close>

lemma changed_prefix_effect:
  assumes pe: "productExists (ID item) w = ((True, p, None), w1)"
    and up: "updateProductStatus env (ID item) ''updated'' (Item.Price item) w1 = (e1, w2)"
    and de: "deleteFile env (ID item) w2 = (e2, w3)"
    and ins: "insertProduct env (newProduct item)
        (case e2 of None \<Rightarrow> w3
         | Some e \<Rightarrow> emit (EvLog (FailedToDeleteDocumentErr (ID item) e)) w3) = (e3, w5)"
  shows "files w5 = files w"
    and "filter is_store_call (trace w5) = filter is_store_call (trace w) @ [EvHttpDelete (ID item)]"
    and "filter (\<lambda>e. is_upload e \<or> is_enrichment e \<or> is_local_write e) (trace w5) =
         filter (\<lambda>e. is_upload e \<or> is_enrichment e \<or> is_local_write e) (trace w)"
    and "e3 = None \<longrightarrow> rows w5 = rows w2 @ [newProduct item]"
    and "e3 \<noteq> None \<longrightarrow> rows w5 = rows w2"
proof -
  let ?w4 = "case e2 of None \<Rightarrow> w3
         | Some e \<Rightarrow> emit (EvLog (FailedToDeleteDocumentErr (ID item) e)) w3"
  note pef = productExists_effect [OF pe]
  note upf = updateProductStatus_effect [OF up]
  note def = deleteFile_effect [OF de]
  note inf = insertProduct_effect [OF ins]
  from upf obtain s1 where s1: "trace w2 = trace w1 @ s1" "\<forall>e\<in>set s1. is_sleep e" by blast
  from def obtain m where m: "trace w3 = trace w2 @ EvHttpDelete (ID item) # m"
    "\<forall>e\<in>set m. \<exists>l. e = EvLog l" by blast
  have w4: "files ?w4 = files w3" "rows ?w4 = rows w3"
    "\<exists>m'. trace ?w4 = trace w3 @ m' \<and> (\<forall>e\<in>set m'. \<exists>l. e = EvLog l)"
    by (auto simp: emit_def split: option.splits)
  then obtain m' where m': "trace ?w4 = trace w3 @ m'" "\<forall>e\<in>set m'. \<exists>l. e = EvLog l" by blast
  from inf obtain s2 where s2: "trace w5 = trace ?w4 @ s2" "\<forall>e\<in>set s2. is_sleep e" by blast
  have tr: "trace w5 = trace w @ s1 @ EvHttpDelete (ID item) # m @ m' @ s2"
    using s1(1) m(1) m'(1) s2(1) pef by simp
  show "files w5 = files w" using inf w4(1) def upf pef by simp
  show "filter is_store_call (trace w5) = filter is_store_call (trace w) @ [EvHttpDelete (ID item)]"
    unfolding tr
    by (simp add: filter_store_sleeps [OF s1(2)] filter_store_sleeps [OF s2(2)]
        filter_store_logs [OF m(2)] filter_store_logs [OF m'(2)])
  show "filter (\<lambda>e. is_upload e \<or> is_enrichment e \<or> is_local_write e) (trace w5) =
         filter (\<lambda>e. is_upload e \<or> is_enrichment e \<or> is_local_write e) (trace w)"
    unfolding tr
    by (simp add: filter_publish_sleeps [OF s1(2)] filter_publish_sleeps [OF s2(2)]
        filter_publish_logs [OF m(2)] filter_publish_logs [OF m'(2)])
  show "e3 = None \<longrightarrow> rows w5 = rows w2 @ [newProduct item]"
    using inf w4(2) def by auto
  show "e3 \<noteq> None \<longrightarrow> rows w5 = rows w2"
    using inf w4(2) def by auto
qed


lemmas eval_defs =
  worker_def productExists_def updateProductStatus_def insertProduct_def
  executeWithRetry_def executeWithRetry_loop.simps maxRetries_def db_Exec_def worldOf_def
  is_busy_or_locked_def
  withFile_def itemC_def rowC_def rowD_def logFailure_def deleteFile_def emit_def constEnv_def
  newProduct_def processItem_def fileExists_def outputFilePath_def folderPath_def
  fetchSpecification_def writeFile_def uploadFile_def formattedItem_def newline_def Let_def

lemma uploadFile_rows: "uploadFile env f w = (r, w') \<Longrightarrow> rows w' = rows w"
  by (auto simp: uploadFile_def emit_def Let_def split: http_result.splits if_splits)

lemma processItem_rows: "rows (snd (processItem env item w)) = rows w"
  by (auto simp: processItem_def fetchSpecification_def writeFile_def
      emit_def Let_def split: prod.splits option.splits dest!: uploadFile_rows)

lemma processItem_rows_eq: "processItem env item w = (r, w') \<Longrightarrow> rows w' = rows w"
  using processItem_rows [of env item w] by simp

lemma logFailure_rows: "rows (logFailure r w) = rows w"
  by (simp add: logFailure_def emit_def split: option.splits)

lemma uploadFile_trace:
  assumes "uploadFile env f w = (r, w')"
  shows "\<exists>evs. trace w' = trace w @ evs \<and> (\<forall>e\<in>set evs. is_upload e \<or> (\<exists>l. e = EvLog l))"
  using assms
  by (auto simp: uploadFile_def emit_def Let_def split: http_result.splits if_splits)

text \<open>
  The requests of produce-and-publish to the document store are uploads, and when the
  document is not there it calls the browser once, on the link of the item.
\<close>

lemma processItem_store_calls:
  "\<exists>evs. filter is_store_call (trace (snd (processItem env item w))) =
           filter is_store_call (trace w) @ evs \<and> (\<forall>e\<in>set evs. is_upload e)"
proof (cases "fileExists (outputFilePath item) w")
  case True
  then show ?thesis by (simp add: processItem_def)
next
  case False
  let ?p = "outputFilePath item"
  let ?w2 = "case chromedp_run env (Link item) of
      None \<Rightarrow> emit (EvLog (FailedToFetchSpecification (Link item)))
                (emit (EvFetchSpecification (Link item)) w)
    | Some d \<Rightarrow> emit (EvFetchSpecification (Link item)) w"
  have s2: "filter is_store_call (trace ?w2) = filter is_store_call (trace w)"
    by (simp add: emit_def split: option.splits)
  obtain ok w3 where wf: "writeFile env ?p (formattedItem env item (chromedp_run env (Link item))) ?w2 = (ok, w3)"
    by (metis prod.exhaust)
  have s3: "filter is_store_call (trace w3) = filter is_store_call (trace w)"
    using wf s2 by (auto simp: writeFile_def emit_def Let_def split: if_splits)
  show ?thesis
  proof (cases ok)
    case no: False
    have "snd (processItem env item w) = emit (EvLog (FailedToWriteProductFile ?p)) w3"
      using False wf no by (simp add: processItem_def fetchSpecification_def)
    then show ?thesis using s3 by (simp add: emit_def)
  next
    case yes: True
    obtain r w4 where ul: "uploadFile env ?p w3 = (r, w4)"
      by (metis prod.exhaust)
    from uploadFile_trace [OF ul] obtain evs where
      evs: "trace w4 = trace w3 @ evs" "\<forall>e\<in>set evs. is_upload e \<or> (\<exists>l. e = EvLog l)"
      by blast
    have up: "\<forall>e\<in>set (filter is_store_call evs). is_upload e"
      using evs(2) by auto
    have "\<exists>l. snd (processItem env item w) = emit (EvLog l) w4"
      using False wf yes ul by (auto simp: processItem_def fetchSpecification_def split: option.splits)
    then obtain l where "snd (processItem env item w) = emit (EvLog l) w4" by blast
    then have "filter is_store_call (trace (snd (processItem env item w))) =
        filter is_store_call (trace w) @ filter is_store_call evs"
      using evs(1) s3 by (simp add: emit_def)
    with up show ?thesis by blast
  qed
qed

lemma is_enrichment_not_upload:
  "is_upload e \<or> (\<exists>l. e = EvLog l) \<Longrightarrow> \<not> is_enrichment e"
  by (cases e) auto

lemma processItem_enrichment:
  assumes "\<not> fileExists (outputFilePath item) w"
  shows "filter is_enrichment (trace (snd (processItem env item w))) =
         filter is_enrichment (trace w) @ [EvFetchSpecification (Link item)]"
proof -
  let ?p = "outputFilePath item"
  let ?w2 = "case chromedp_run env (Link item) of
      None \<Rightarrow> emit (EvLog (FailedToFetchSpecification (Link item)))
                (emit (EvFetchSpecification (Link item)) w)
    | Some d \<Rightarrow> emit (EvFetchSpecification (Link item)) w"
  have s2: "filter is_enrichment (trace ?w2) =
      filter is_enrichment (trace w) @ [EvFetchSpecification (Link item)]"
    by (simp add: emit_def split: option.splits)
  obtain ok w3 where wf: "writeFile env ?p (formattedItem env item (chromedp_run env (Link item))) ?w2 = (ok, w3)"
    by (metis prod.exhaust)
  have s3: "filter is_enrichment (trace w3) =
      filter is_enrichment (trace w) @ [EvFetchSpecification (Link item)]"
    using wf s2 by (auto simp: writeFile_def emit_def Let_def split: if_splits)
  show ?thesis
  proof (cases ok)
    case no: False
    have "snd (processItem env item w) = emit (EvLog (FailedToWriteProductFile ?p)) w3"
      using assms wf no by (simp add: processItem_def fetchSpecification_def)
    then show ?thesis using s3 by (simp add: emit_def)
  next
    case yes: True
    obtain r w4 where ul: "uploadFile env ?p w3 = (r, w4)"
      by (metis prod.exhaust)
    from uploadFile_trace [OF ul] obtain evs where
      evs: "trace w4 = trace w3 @ evs" "\<forall>e\<in>set evs. is_upload e \<or> (\<exists>l. e = EvLog l)"
      by blast
    have ne: "filter is_enrichment evs = []"
      using evs(2) is_enrichment_not_upload by (auto simp: filter_empty_conv)
    have "\<exists>l. snd (processItem env item w) = emit (EvLog l) w4"
      using assms wf yes ul by (auto simp: processItem_def fetchSpecification_def split: option.splits)
    then obtain l where "snd (processItem env item w) = emit (EvLog l) w4" by blast
    then show ?thesis
      using evs(1) s3 ne by (simp add: emit_def)
  qed
qed

lemma logFailure_trace:
  "\<exists>m. trace (logFailure r w) = trace w @ m \<and> (\<forall>e\<in>set m. \<exists>l. e = EvLog l)"
  by (auto simp: logFailure_def emit_def split: option.splits)

text \<open>
  C1. The lookup finds a record whose price differs from the price of the item. Of the
  worker itself, whatever the outcome of its calls: its first request to the document
  store is the removal of the document of the identifier, whose failure is only logged,
  and any further request is an upload, none when the insert fails. The table it leaves
  is the table it found, with the records of the identifier at status \<open>updated\<close> and the
  new price when the update is carried out, followed by the record \<open>newProduct item\<close>
  (identifier, price and mpn of the item, status \<open>new\<close>) when the insert succeeds. When
  the insert succeeds the worker goes on with produce-and-publish, which calls the
  browser unless the document is there; when it fails nothing is fetched, written or
  uploaded and the files are as they were.
\<close>

theorem worker_changed_price:
  assumes pe: "productExists (ID item) w = ((True, p, None), w1)"
    and ne: "p \<noteq> Item.Price item"
    and up: "updateProductStatus env (ID item) ''updated'' (Item.Price item) w1 = (e1, w2)"
    and de: "deleteFile env (ID item) w2 = (e2, w3)"
    and ins: "insertProduct env (newProduct item)
        (case e2 of None \<Rightarrow> w3
         | Some e \<Rightarrow> emit (EvLog (FailedToDeleteDocumentErr (ID item) e)) w3) = (e3, w5)"
  shows
    "(\<exists>evs. filter is_store_call (trace (worker env item w)) =
             filter is_store_call (trace w) @ EvHttpDelete (ID item) # evs \<and>
           (\<forall>e\<in>set evs. is_upload e) \<and> (e3 \<noteq> None \<longrightarrow> evs = [])) \<and>
     rows (worker env item w) =
       (if e1 = None
        then map (\<lambda>r. if UniqueCode r = ID item
                       then r\<lparr>Status := ''updated'', Price := Item.Price item\<rparr> else r) (rows w)
        else rows w) @
       (if e3 = None then [newProduct item] else []) \<and>
     newProduct item =
       \<lparr>UniqueCode = ID item, Price = Item.Price item, MPN = Item.MPN item, Status = ''new''\<rparr> \<and>
     (e3 = None \<longrightarrow>
        worker env item w =
          logFailure (fst (processItem env item w5)) (snd (processItem env item w5)) \<and>
        files w5 = files w \<and>
        (\<not> fileExists (outputFilePath item) w \<longrightarrow>
           filter is_enrichment (trace (worker env item w)) =
           filter is_enrichment (trace w) @ [EvFetchSpecification (Link item)])) \<and>
     (e3 \<noteq> None \<longrightarrow>
        files (worker env item w) = files w \<and>
        filter (\<lambda>e. is_upload e \<or> is_enrichment e \<or> is_local_write e) (trace (worker env item w)) =
        filter (\<lambda>e. is_upload e \<or> is_enrichment e \<or> is_local_write e) (trace w))"
proof -
  note wk = worker_changed_unfold [OF pe ne up de ins]
  note eff = changed_prefix_effect [OF pe up de ins]
  have r2: "rows w2 =
       (if e1 = None
        then map (\<lambda>r. if UniqueCode r = ID item
                       then r\<lparr>Status := ''updated'', Price := Item.Price item\<rparr> else r) (rows w)
        else rows w)"
    using updateProductStatus_effect [OF up] productExists_effect [OF pe] by auto
  have r5: "rows w5 = rows w2 @ (if e3 = None then [newProduct item] else [])"
    using eff(4) eff(5) by simp
  have rw: "rows (worker env item w) = rows w5"
    using wk by (simp add: logFailure_rows processItem_rows)
  have b: "rows (worker env item w) =
       (if e1 = None
        then map (\<lambda>r. if UniqueCode r = ID item
                       then r\<lparr>Status := ''updated'', Price := Item.Price item\<rparr> else r) (rows w)
        else rows w) @
       (if e3 = None then [newProduct item] else [])"
    unfolding rw r5 r2 ..
  have c: "newProduct item =
       \<lparr>UniqueCode = ID item, Price = Item.Price item, MPN = Item.MPN item, Status = ''new''\<rparr>"
    by (simp add: newProduct_def)
  have a: "\<exists>evs. filter is_store_call (trace (worker env item w)) =
             filter is_store_call (trace w) @ EvHttpDelete (ID item) # evs \<and>
           (\<forall>e\<in>set evs. is_upload e) \<and> (e3 \<noteq> None \<longrightarrow> evs = [])"
  proof (cases e3)
    case None
    from processItem_store_calls [of env item w5] obtain evs where
      evs: "filter is_store_call (trace (snd (processItem env item w5))) =
           filter is_store_call (trace w5) @ evs" "\<forall>e\<in>set evs. is_upload e"
      by blast
    from logFailure_trace [of "fst (processItem env item w5)" "snd (processItem env item w5)"]
    obtain m where m: "trace (worker env item w) = trace (snd (processItem env item w5)) @ m"
      "\<forall>e\<in>set m. \<exists>l. e = EvLog l"
      using wk None by auto
    have "filter is_store_call (trace (worker env item w)) =
        filter is_store_call (trace w) @ EvHttpDelete (ID item) # evs"
      unfolding m(1) using evs(1) eff(2) by (simp add: filter_store_logs [OF m(2)])
    with evs(2) None show ?thesis by blast
  next
    case (Some e)
    have "worker env item w = emit (EvLog (FailedToProcessItem e)) w5"
      using wk Some by (simp add: logFailure_def)
    then have "filter is_store_call (trace (worker env item w)) =
        filter is_store_call (trace w) @ EvHttpDelete (ID item) # []"
      using eff(2) by (simp add: emit_def)
    then show ?thesis by (intro exI [of _ "[]"]) simp
  qed
  have d: "e3 = None \<longrightarrow>
        worker env item w =
          logFailure (fst (processItem env item w5)) (snd (processItem env item w5)) \<and>
        files w5 = files w \<and>
        (\<not> fileExists (outputFilePath item) w \<longrightarrow>
           filter is_enrichment (trace (worker env item w)) =
           filter is_enrichment (trace w) @ [EvFetchSpecification (Link item)])"
  proof
    assume n: "e3 = None"
    have w: "worker env item w =
          logFailure (fst (processItem env item w5)) (snd (processItem env item w5))"
      using wk n by simp
    have en: "\<not> fileExists (outputFilePath item) w \<longrightarrow>
           filter is_enrichment (trace (worker env item w)) =
           filter is_enrichment (trace w) @ [EvFetchSpecification (Link item)]"
    proof
      assume nf: "\<not> fileExists (outputFilePath item) w"
      then have nf5: "\<not> fileExists (outputFilePath item) w5"
        using eff(1) by (simp add: fileExists_def)
      from logFailure_trace [of "fst (processItem env item w5)" "snd (processItem env item w5)"]
      obtain m where m: "trace (worker env item w) = trace (snd (processItem env item w5)) @ m"
        "\<forall>e\<in>set m. \<exists>l. e = EvLog l"
        using w by auto
      have fm: "filter is_enrichment m = []"
        using m(2) by (auto simp: filter_empty_conv)
      have f5: "filter is_enrichment (trace w5) = filter is_enrichment (trace w)"
      proof -
        have "filter is_enrichment
            (filter (\<lambda>e. is_upload e \<or> is_enrichment e \<or> is_local_write e) (trace w5)) =
          filter is_enrichment
            (filter (\<lambda>e. is_upload e \<or> is_enrichment e \<or> is_local_write e) (trace w))"
          using eff(3) by simp
        then show ?thesis by (simp add: conj_commute cong: conj_cong)
      qed
      show "filter is_enrichment (trace (worker env item w)) =
           filter is_enrichment (trace w) @ [EvFetchSpecification (Link item)]"
        unfolding m(1) using processItem_enrichment [OF nf5, of env] f5 fm by simp
    qed
    show "worker env item w =
          logFailure (fst (processItem env item w5)) (snd (processItem env item w5)) \<and>
        files w5 = files w \<and>
        (\<not> fileExists (outputFilePath item) w \<longrightarrow>
           filter is_enrichment (trace (worker env item w)) =
           filter is_enrichment (trace w) @ [EvFetchSpecification (Link item)])"
      using w eff(1) en by blast
  qed
  have e: "e3 \<noteq> None \<longrightarrow>
        files (worker env item w) = files w \<and>
        filter (\<lambda>e. is_upload e \<or> is_enrichment e \<or> is_local_write e) (trace (worker env item w)) =
        filter (\<lambda>e. is_upload e \<or> is_enrichment e \<or> is_local_write e) (trace w)"
  proof
    assume f: "e3 \<noteq> None"
    then obtain e where e: "e3 = Some e" by auto
    have "worker env item w = emit (EvLog (FailedToProcessItem e)) w5"
      using wk e by (simp add: logFailure_def)
    then show "files (worker env item w) = files w \<and>
        filter (\<lambda>e. is_upload e \<or> is_enrichment e \<or> is_local_write e) (trace (worker env item w)) =
        filter (\<lambda>e. is_upload e \<or> is_enrichment e \<or> is_local_write e) (trace w)"
      using eff(1) eff(3) by (simp add: emit_def)
  qed
  show ?thesis using a b c d e by blast
qed

theorem worker_changed_price_witness:
  "productExists (ID (itemC (15/2))) (worldOf [rowC 5 ''deleted''] []) =
     ((True, 5, None), worldOf [rowC 5 ''deleted''] []) \<and>
   (5::rat) \<noteq> Item.Price (itemC (15/2)) \<and>
   rows (worker (constEnv False 204 200) (itemC (15/2)) (worldOf [rowC 5 ''deleted''] [])) =
     [rowC (15/2) ''updated'', rowC (15/2) ''new''] \<and>
   filter is_store_call
     (trace (worker (constEnv False 204 200) (itemC (15/2)) (worldOf [rowC 5 ''deleted''] []))) =
     [EvHttpDelete ''C'', EvHttpPost ''product/Prod_C.txt''] \<and>
   \<not> fileExists (outputFilePath (itemC (15/2))) (worldOf [rowC 5 ''deleted''] []) \<and>
   filter is_enrichment
     (trace (worker (constEnv False 204 200) (itemC (15/2)) (worldOf [rowC 5 ''deleted''] []))) =
     [EvFetchSpecification ''l''] \<and>
   worker (constEnv True 204 200) (itemC (15/2)) (worldOf [rowC 5 ''deleted''] []) =
     \<lparr>rows = [rowC (15/2) ''updated''], faults = [], files = Map.empty,
      trace = [EvHttpDelete ''C'', EvLog (DeletedDocument ''C''),
               EvLog (FailedToProcessItem (SqliteError ErrConstraint))]\<rparr>"
proof -
  let ?w = "worldOf [rowC 5 ''deleted''] []"
  let ?w2 = "worldOf [rowC (15/2) ''updated''] []"
  let ?w3 = "?w2\<lparr>trace := [EvHttpDelete ''C'', EvLog (DeletedDocument ''C'')]\<rparr>"
  let ?it = "itemC (15/2)"
  have pe: "productExists (ID ?it) ?w = ((True, 5, None), ?w)"
    by (simp add: eval_defs)
  have ne: "(5::rat) \<noteq> Item.Price ?it"
    by (simp add: itemC_def)
  have up: "updateProductStatus (constEnv False 204 200) (ID ?it) ''updated'' (Item.Price ?it) ?w =
      (None, ?w2)"
    by (simp add: eval_defs)
  have de: "deleteFile (constEnv False 204 200) (ID ?it) ?w2 = (None, ?w3)"
    by (simp add: eval_defs)
  have ins: "insertProduct (constEnv False 204 200) (newProduct ?it)
        (case None of None \<Rightarrow> ?w3
         | Some e \<Rightarrow> emit (EvLog (FailedToDeleteDocumentErr (ID ?it) e)) ?w3) =
      (None, ?w3\<lparr>rows := [rowC (15/2) ''updated'', rowC (15/2) ''new'']\<rparr>)"
    by (simp add: eval_defs)
  have upk: "updateProductStatus (constEnv True 204 200) (ID ?it) ''updated'' (Item.Price ?it) ?w =
      (None, ?w2)"
    by (simp add: eval_defs)
  have dek: "deleteFile (constEnv True 204 200) (ID ?it) ?w2 = (None, ?w3)"
    by (simp add: eval_defs)
  have insk: "insertProduct (constEnv True 204 200) (newProduct ?it)
        (case None of None \<Rightarrow> ?w3
         | Some e \<Rightarrow> emit (EvLog (FailedToDeleteDocumentErr (ID ?it) e)) ?w3) =
      (Some (SqliteError ErrConstraint), ?w3)"
    by (simp add: eval_defs)
  have wk: "worker (constEnv False 204 200) ?it ?w =
     \<lparr>rows = [rowC (15/2) ''updated'', rowC (15/2) ''new''], faults = [],
      files = [''product/Prod_C.txt'' \<mapsto>
        formattedItem (constEnv False 204 200) ?it (Some (''spec'', ''cat''))],
      trace = [EvHttpDelete ''C'', EvLog (DeletedDocument ''C''), EvFetchSpecification ''l'',
        EvWriteFile ''product/Prod_C.txt''
          (formattedItem (constEnv False 204 200) ?it (Some (''spec'', ''cat''))),
        EvHttpPost ''product/Prod_C.txt'', EvLog (FileUploaded ''product/Prod_C.txt''),
        EvLog (ProcessedAndUploaded ''C'')]\<rparr>"
    by (simp add: eval_defs)
  have wkk: "worker (constEnv True 204 200) ?it ?w =
     \<lparr>rows = [rowC (15/2) ''updated''], faults = [], files = Map.empty,
      trace = [EvHttpDelete ''C'', EvLog (DeletedDocument ''C''),
               EvLog (FailedToProcessItem (SqliteError ErrConstraint))]\<rparr>"
    by (simp add: eval_defs)
  have nf: "\<not> fileExists (outputFilePath ?it) ?w"
    by (simp add: eval_defs)
  show ?thesis
    using worker_changed_price [OF pe ne up de ins] worker_changed_price [OF pe ne upk dek insk]
      pe ne nf
    by (simp add: wk wkk)
qed


text \<open>
  C10. The price has changed and the local document of the identifier is there from an
  earlier run. The worker sends the removal request, which is its only request to the
  document store: nothing is uploaded, fetched or written, and the files stay as they
  were. When the insert succeeds the new record is the last of the table, and
  produce-and-publish returns at once with success.
\<close>

theorem worker_changed_price_document_exists:
  assumes pe: "productExists (ID item) w = ((True, p, None), w1)"
    and ne: "p \<noteq> Item.Price item"
    and fe: "fileExists (outputFilePath item) w"
    and up: "updateProductStatus env (ID item) ''updated'' (Item.Price item) w1 = (e1, w2)"
    and de: "deleteFile env (ID item) w2 = (e2, w3)"
    and ins: "insertProduct env (newProduct item)
        (case e2 of None \<Rightarrow> w3
         | Some e \<Rightarrow> emit (EvLog (FailedToDeleteDocumentErr (ID item) e)) w3) = (e3, w5)"
  shows
    "filter is_store_call (trace (worker env item w)) =
       filter is_store_call (trace w) @ [EvHttpDelete (ID item)] \<and>
     filter (\<lambda>e. is_upload e \<or> is_enrichment e \<or> is_local_write e) (trace (worker env item w)) =
       filter (\<lambda>e. is_upload e \<or> is_enrichment e \<or> is_local_write e) (trace w) \<and>
     files (worker env item w) = files w \<and>
     (e3 = None \<longrightarrow>
        rows (worker env item w) = rows w2 @ [newProduct item] \<and>
        processItem env item w5 = (None, w5))"
proof -
  note wk = worker_changed_unfold [OF pe ne up de ins]
  note eff = changed_prefix_effect [OF pe up de ins]
  have "fileExists (outputFilePath item) w5"
    using fe eff(1) by (simp add: fileExists_def)
  then have pi: "processItem env item w5 = (None, w5)"
    by (simp add: processItem_def)
  have w: "worker env item w = logFailure e3 w5"
    using wk pi by (simp add: logFailure_def)
  have tr: "\<exists>m. trace (worker env item w) = trace w5 @ m \<and> (\<forall>e\<in>set m. \<exists>l. e = EvLog l)"
    unfolding w by (auto simp: logFailure_def emit_def split: option.splits)
  then obtain m where m: "trace (worker env item w) = trace w5 @ m" "\<forall>e\<in>set m. \<exists>l. e = EvLog l"
    by blast
  have a: "filter is_store_call (trace (worker env item w)) =
       filter is_store_call (trace w) @ [EvHttpDelete (ID item)]"
    unfolding m(1) using eff(2) by (simp add: filter_store_logs [OF m(2)])
  have b: "filter (\<lambda>e. is_upload e \<or> is_enrichment e \<or> is_local_write e) (trace (worker env item w)) =
       filter (\<lambda>e. is_upload e \<or> is_enrichment e \<or> is_local_write e) (trace w)"
    unfolding m(1) using eff(3) by (simp add: filter_publish_logs [OF m(2)])
  have c: "files (worker env item w) = files w"
    unfolding w using eff(1) by (simp add: logFailure_def emit_def split: option.splits)
  have d: "e3 = None \<longrightarrow>
        rows (worker env item w) = rows w2 @ [newProduct item] \<and>
        processItem env item w5 = (None, w5)"
    unfolding w using eff(4) pi by (simp add: logFailure_def)
  show ?thesis using a b c d by blast
qed

theorem worker_changed_price_document_exists_witness:
  "productExists (ID (itemC (15/2))) (withFile ''product/Prod_C.txt'' (worldOf [rowC 5 ''deleted''] [])) =
     ((True, 5, None), withFile ''product/Prod_C.txt'' (worldOf [rowC 5 ''deleted''] [])) \<and>
   (5::rat) \<noteq> Item.Price (itemC (15/2)) \<and>
   fileExists (outputFilePath (itemC (15/2)))
     (withFile ''product/Prod_C.txt'' (worldOf [rowC 5 ''deleted''] [])) \<and>
   worker (constEnv False 204 200) (itemC (15/2))
     (withFile ''product/Prod_C.txt'' (worldOf [rowC 5 ''deleted''] [])) =
     \<lparr>rows = [rowC (15/2) ''updated'', rowC (15/2) ''new''], faults = [],
      files = [''product/Prod_C.txt'' \<mapsto> ''old''],
      trace = [EvHttpDelete ''C'', EvLog (DeletedDocument ''C'')]\<rparr>"
proof -
  let ?w = "withFile ''product/Prod_C.txt'' (worldOf [rowC 5 ''deleted''] [])"
  let ?w2 = "withFile ''product/Prod_C.txt'' (worldOf [rowC (15/2) ''updated''] [])"
  let ?w3 = "?w2\<lparr>trace := [EvHttpDelete ''C'', EvLog (DeletedDocument ''C'')]\<rparr>"
  let ?it = "itemC (15/2)"
  have pe: "productExists (ID ?it) ?w = ((True, 5, None), ?w)"
    by (simp add: eval_defs)
  have ne: "(5::rat) \<noteq> Item.Price ?it"
    by (simp add: itemC_def)
  have fe: "fileExists (outputFilePath ?it) ?w"
    by (simp add: eval_defs)
  have up: "updateProductStatus (constEnv False 204 200) (ID ?it) ''updated'' (Item.Price ?it) ?w =
      (None, ?w2)"
    by (simp add: eval_defs)
  have de: "deleteFile (constEnv False 204 200) (ID ?it) ?w2 = (None, ?w3)"
    by (simp add: eval_defs)
  have ins: "insertProduct (constEnv False 204 200) (newProduct ?it)
        (case None of None \<Rightarrow> ?w3
         | Some e \<Rightarrow> emit (EvLog (FailedToDeleteDocumentErr (ID ?it) e)) ?w3) =
      (None, ?w3\<lparr>rows := [rowC (15/2) ''updated'', rowC (15/2) ''new'']\<rparr>)"
    by (simp add: eval_defs)
  have wk: "worker (constEnv False 204 200) ?it ?w =
     \<lparr>rows = [rowC (15/2) ''updated'', rowC (15/2) ''new''], faults = [],
      files = [''product/Prod_C.txt'' \<mapsto> ''old''],
      trace = [EvHttpDelete ''C'', EvLog (DeletedDocument ''C'')]\<rparr>"
    by (simp add: eval_defs)
  show ?thesis
    using worker_changed_price_document_exists [OF pe ne fe up de ins] pe ne fe
    by (simp add: wk)
qed

section \<open>Store errors in the worker\<close>

text \<open>An error of the lookup, and an error of the insert of a new identifier, end the worker.\<close>

lemma worker_lookup_error:
  assumes "productExists (ID item) w = ((ex, p, Some e), w1)"
  shows "worker env item w = emit (EvLog (ErrorCheckingExistence e)) w1"
  using assms by (simp add: worker_def)

lemma worker_insert_error:
  assumes "productExists (ID item) w = ((False, p, None), w1)"
    and "insertProduct env (newProduct item) w1 = (Some e, w2)"
  shows "worker env item w = emit (EvLog (FailedToProcessItem e)) w2"
  using assms by (simp add: worker_def logFailure_def)


text \<open>
  C3 at a concrete input. The table holds the record of \<open>C\<close> with price 5, the item \<open>C\<close>
  arrives with price 7.5, the lookup succeeds and the driver answers the update with an
  I/O error, which is neither busy nor locked. The worker does not stop: it sends the
  removal request and attempts the insert. On a table that enforces the key the insert
  fails and its error is the one logged; on a table that does not, a second record of \<open>C\<close>
  is inserted and the document is produced and uploaded. The error of the update is
  logged in neither case.
\<close>

theorem worker_update_error_goes_on:
  "updateProductStatus (constEnv True 204 200) ''C'' ''updated'' (15/2)
     (worldOf [rowC 5 ''deleted''] [Some (SqliteError ErrIoErr)]) =
     (Some (SqliteError ErrIoErr), worldOf [rowC 5 ''deleted''] []) \<and>
   worker (constEnv True 204 200) (itemC (15/2))
     (worldOf [rowC 5 ''deleted''] [None, Some (SqliteError ErrIoErr)]) =
     \<lparr>rows = [rowC 5 ''deleted''], faults = [], files = Map.empty,
      trace = [EvHttpDelete ''C'', EvLog (DeletedDocument ''C''),
               EvLog (FailedToProcessItem (SqliteError ErrConstraint))]\<rparr> \<and>
   rows (worker (constEnv False 204 200) (itemC (15/2))
     (worldOf [rowC 5 ''deleted''] [None, Some (SqliteError ErrIoErr)])) =
     [rowC 5 ''deleted'', rowC (15/2) ''new''] \<and>
   filter is_store_call (trace (worker (constEnv False 204 200) (itemC (15/2))
     (worldOf [rowC 5 ''deleted''] [None, Some (SqliteError ErrIoErr)]))) =
     [EvHttpDelete ''C'', EvHttpPost ''product/Prod_C.txt'']"
  by (simp add: eval_defs)

section \<open>The run\<close>

lemma run_inv_init: "run_inv env items w0 (init items w0)"
  by (simp add: run_inv_def init_def inProcessing_def runWorkers_def)

lemma run_inv_step:
  assumes "step env s s'" and "run_inv env items w0 s"
  shows "run_inv env items w0 s'"
  using assms
proof (cases rule: step.cases)
  case (m_send item rest)
  with assms(2) show ?thesis
    by (simp add: run_inv_def inProcessing_def)
next
  case (m_add item)
  with assms(2) show ?thesis
    by (simp add: run_inv_def inProcessing_def)
next
  case (m_go item)
  with assms(2) show ?thesis
    by (simp add: run_inv_def inProcessing_def)
next
  case m_wait
  with assms(2) show ?thesis
    by (simp add: run_inv_def inProcessing_def)
next
  case (g_lock gs1 item gs2)
  with assms(2) show ?thesis
    by (auto simp: run_inv_def inProcessing_def split: if_splits)
next
  case (g_body gs1 item gs2)
  with assms(2) show ?thesis
    by (auto simp: run_inv_def inProcessing_def runWorkers_def split: if_splits)
next
  case (g_unlock gs1 item gs2)
  with assms(2) show ?thesis
    by (auto simp: run_inv_def inProcessing_def split: if_splits)
next
  case (g_done gs1 item gs2)
  with assms(2) show ?thesis
    by (auto simp: run_inv_def inProcessing_def split: if_splits)
next
  case (g_recv gs1 item gs2)
  with assms(2) show ?thesis
    by (auto simp: run_inv_def inProcessing_def split: if_splits)
qed

lemma reachable_run_inv:
  assumes "reachable env items w0 s"
  shows "run_inv env items w0 s"
  using assms unfolding reachable_def
  by (induction rule: rtranclp_induct) (auto intro: run_inv_init run_inv_step)


lemma reachable_init: "reachable env items w0 (init items w0)"
  by (simp add: reachable_def)

lemma reachable_step:
  "reachable env items w0 s \<Longrightarrow> step env s s' \<Longrightarrow> reachable env items w0 s'"
  unfolding reachable_def by (rule rtranclp.rtrancl_into_rtrancl)

text \<open>
  C9. In every state of a run at most \<open>maxWorkers\<close> = 5 goroutines exist, so at most 5 items
  are inside their processing sequence. When \<open>processXMLData\<close> has returned, the worker
  body of every item of the feed has run, once for each occurrence, no goroutine is still
  in processing, and the world is what these bodies made of it, one after the other.
\<close>

theorem processXMLData_bound_and_barrier:
  assumes "reachable env items w0 s"
  shows "maxWorkers = 5 \<and> inProcessing s \<le> length (goroutines s) \<and>
         length (goroutines s) \<le> maxWorkers \<and>
         (mpc s = MReturned \<longrightarrow>
            mset (finished s) = mset items \<and> inProcessing s = 0 \<and>
            world s = runWorkers env (finished s) w0)"
proof -
  have inv: "run_inv env items w0 s"
    using assms by (rule reachable_run_inv)
  have a: "inProcessing s \<le> length (goroutines s)"
    by (simp add: inProcessing_def)
  have b: "length (goroutines s) \<le> maxWorkers"
    using inv by (simp add: run_inv_def)
  have c: "mpc s = MReturned \<longrightarrow>
            mset (finished s) = mset items \<and> inProcessing s = 0 \<and>
            world s = runWorkers env (finished s) w0"
  proof
    assume r: "mpc s = MReturned"
    with inv have p: "pending s = []" and z: "inProcessing s = 0"
      and w: "world s = runWorkers env (finished s) w0"
      by (simp_all add: run_inv_def)
    from z have "filter (\<lambda>g. snd g \<noteq> GDone) (goroutines s) = []"
      by (simp add: inProcessing_def)
    then have "\<forall>g\<in>set (goroutines s). snd g = GDone"
      by (simp add: filter_empty_conv)
    then have "filter (\<lambda>g. snd g = GStart \<or> snd g = GLocked) (goroutines s) = []"
      by (auto simp: filter_empty_conv)
    with inv r p have "mset (finished s) = mset items"
      by (simp add: run_inv_def)
    with z w show "mset (finished s) = mset items \<and> inProcessing s = 0 \<and>
            world s = runWorkers env (finished s) w0"
      by simp
  qed
  show ?thesis using a b c by (simp add: maxWorkers_def)
qed

theorem processXMLData_bound_and_barrier_witness:
  "reachable (constEnv True 204 200) [itemC 20] (worldOf [rowC 20 ''deleted''] [])
     \<lparr>pending = [], mpc = MReturned, sem = 0, wg = 0, locked = False, goroutines = [],
      world = worldOf [rowC 20 ''existing''] [], finished = [itemC 20]\<rparr> \<and>
   world \<lparr>pending = [], mpc = MReturned, sem = 0, wg = 0, locked = False, goroutines = [],
      world = worldOf [rowC 20 ''existing''] [], finished = [itemC 20]\<rparr> =
     runWorkers (constEnv True 204 200) [itemC 20] (worldOf [rowC 20 ''deleted''] [])"
proof -
  let ?E = "constEnv True 204 200"
  let ?it = "itemC 20"
  let ?w0 = "worldOf [rowC 20 ''deleted''] []"
  let ?w1 = "worldOf [rowC 20 ''existing''] []"
  let ?s1 = "\<lparr>pending = [], mpc = MAcquired ?it, sem = 1, wg = 0, locked = False, goroutines = [],
      world = ?w0, finished = []\<rparr>"
  let ?s2 = "\<lparr>pending = [], mpc = MAdded ?it, sem = 1, wg = 1, locked = False, goroutines = [],
      world = ?w0, finished = []\<rparr>"
  let ?s3 = "\<lparr>pending = [], mpc = MLoop, sem = 1, wg = 1, locked = False,
      goroutines = [(?it, GStart)], world = ?w0, finished = []\<rparr>"
  let ?s4 = "\<lparr>pending = [], mpc = MLoop, sem = 1, wg = 1, locked = True,
      goroutines = [(?it, GLocked)], world = ?w0, finished = []\<rparr>"
  let ?s5 = "\<lparr>pending = [], mpc = MLoop, sem = 1, wg = 1, locked = True,
      goroutines = [(?it, GWorked)], world = ?w1, finished = [?it]\<rparr>"
  let ?s6 = "\<lparr>pending = [], mpc = MLoop, sem = 1, wg = 1, locked = False,
      goroutines = [(?it, GUnlocked)], world = ?w1, finished = [?it]\<rparr>"
  let ?s7 = "\<lparr>pending = [], mpc = MLoop, sem = 1, wg = 0, locked = False,
      goroutines = [(?it, GDone)], world = ?w1, finished = [?it]\<rparr>"
  let ?s8 = "\<lparr>pending = [], mpc = MLoop, sem = 0, wg = 0, locked = False,
      goroutines = [], world = ?w1, finished = [?it]\<rparr>"
  let ?s9 = "\<lparr>pending = [], mpc = MReturned, sem = 0, wg = 0, locked = False,
      goroutines = [], world = ?w1, finished = [?it]\<rparr>"
  have wk: "worker ?E ?it ?w0 = ?w1"
    by (simp add: eval_defs)
  have t1: "step ?E (init [?it] ?w0) ?s1"
    using m_send [of "init [?it] ?w0" ?it "[]" ?E] by (simp add: init_def maxWorkers_def)
  have t2: "step ?E ?s1 ?s2"
    using m_add [of ?s1 ?it ?E] by simp
  have t3: "step ?E ?s2 ?s3"
    using m_go [of ?s2 ?it ?E] by simp
  have t4: "step ?E ?s3 ?s4"
    using g_lock [of ?s3 "[]" ?it "[]" ?E] by simp
  have t5: "step ?E ?s4 ?s5"
    using g_body [of ?s4 "[]" ?it "[]" ?E] by (simp add: wk)
  have t6: "step ?E ?s5 ?s6"
    using g_unlock [of ?s5 "[]" ?it "[]" ?E] by simp
  have t7: "step ?E ?s6 ?s7"
    using g_done [of ?s6 "[]" ?it "[]" ?E] by simp
  have t8: "step ?E ?s7 ?s8"
    using g_recv [of ?s7 "[]" ?it "[]" ?E] by simp
  have t9: "step ?E ?s8 ?s9"
    using m_wait [of ?s8 ?E] by simp
  have r: "reachable ?E [?it] ?w0 ?s9"
    by (intro reachable_step [OF _ t9] reachable_step [OF _ t8] reachable_step [OF _ t7]
        reachable_step [OF _ t6] reachable_step [OF _ t5] reachable_step [OF _ t4]
        reachable_step [OF _ t3] reachable_step [OF _ t2] reachable_step [OF _ t1]
        reachable_init)
  show ?thesis
    using processXMLData_bound_and_barrier [OF r] r by simp
qed

section \<open>What a worker and a run can do to the table\<close>

lemma worker_rows_I:
  assumes "rs' = (if b then map (upd c st pr) rs else rs) @ (if a then [np] else [])"
    and "a \<and> k \<longrightarrow> c \<notin> set (map UniqueCode rs)"
  shows "\<exists>st pr b a.
     rs' = (if b then map (upd c st pr) rs else rs) @ (if a then [np] else []) \<and>
     (a \<and> k \<longrightarrow> c \<notin> set (map UniqueCode rs))"
  using assms by blast

lemma worker_rows:
  "\<exists>st pr b a.
     rows (worker env item w) =
       (if b then map (upd (ID item) st pr) (rows w) else rows w) @
       (if a then [newProduct item] else []) \<and>
     (a \<and> unique_code_is_key env \<longrightarrow> ID item \<notin> set (map UniqueCode (rows w)))"
proof -
  obtain ex p err w1 where pe: "productExists (ID item) w = ((ex, p, err), w1)"
    by (metis prod.exhaust)
  note pef = productExists_effect [OF pe]
  show ?thesis
  proof (cases err)
    case (Some e)
    then have "rows (worker env item w) = rows w"
      using pe pef by (simp add: worker_def emit_def)
    then show ?thesis
      by (intro worker_rows_I [where b = False and a = False and st = "[]" and pr = 0]) simp_all
  next
    case None
    show ?thesis
    proof (cases ex)
      case False
      obtain e1 w2 where ins: "insertProduct env (newProduct item) w1 = (e1, w2)"
        by (metis prod.exhaust)
      note inf = insertProduct_effect [OF ins]
      have wk: "rows (worker env item w) = rows w2"
        using pe None False ins
        by (auto simp: worker_def logFailure_rows split: prod.splits dest: processItem_rows_eq)
      show ?thesis
      proof (cases e1)
        case None
        with inf pef wk have "rows (worker env item w) = rows w @ [newProduct item]"
          and "\<not> (unique_code_is_key env \<and> UniqueCode (newProduct item) \<in> set (map UniqueCode (rows w)))"
          by auto
        then show ?thesis
          by (intro worker_rows_I [where b = False and a = True and st = "[]" and pr = 0])
            (simp_all add: newProduct_def)
      next
        case (Some e)
        with inf pef wk have "rows (worker env item w) = rows w" by auto
        then show ?thesis
          by (intro worker_rows_I [where b = False and a = False and st = "[]" and pr = 0]) simp_all
      qed
    next
      case True
      show ?thesis
      proof (cases "p = Item.Price item")
        case eq: True
        obtain e1 w2 where up: "updateProductStatus env (ID item) ''existing'' (Item.Price item) w1 = (e1, w2)"
          by (metis prod.exhaust)
        note upf = updateProductStatus_effect [OF up]
        have wk: "rows (worker env item w) = rows w2"
          using pe None True eq up by (simp add: worker_def logFailure_rows)
        from upf pef wk have
          "rows (worker env item w) = map (upd (ID item) ''existing'' (Item.Price item)) (rows w) \<or>
           rows (worker env item w) = rows w"
          by (auto simp: upd_def [abs_def])
        then show ?thesis
        proof
          assume "rows (worker env item w) = map (upd (ID item) ''existing'' (Item.Price item)) (rows w)"
          then show ?thesis
            by (intro worker_rows_I [where b = True and a = False and st = "''existing''"
                  and pr = "Item.Price item"]) simp_all
        next
          assume "rows (worker env item w) = rows w"
          then show ?thesis
            by (intro worker_rows_I [where b = False and a = False and st = "[]" and pr = 0]) simp_all
        qed
      next
        case ne: False
        obtain e1 w2 where up: "updateProductStatus env (ID item) ''updated'' (Item.Price item) w1 = (e1, w2)"
          by (metis prod.exhaust)
        obtain e2 w3 where de: "deleteFile env (ID item) w2 = (e2, w3)"
          by (metis prod.exhaust)
        let ?w4 = "case e2 of None \<Rightarrow> w3
           | Some e \<Rightarrow> emit (EvLog (FailedToDeleteDocumentErr (ID item) e)) w3"
        obtain e3 w5 where ins: "insertProduct env (newProduct item) ?w4 = (e3, w5)"
          by (metis prod.exhaust)
        have pe': "productExists (ID item) w = ((True, p, None), w1)"
          using pe None True by simp
        note wk = worker_changed_unfold [OF pe' ne up de ins]
        note upf = updateProductStatus_effect [OF up]
        note inf = insertProduct_effect [OF ins]
        have r4: "rows ?w4 = rows w2"
          using deleteFile_effect [OF de] by (auto simp: emit_def split: option.splits)
        have r2: "rows w2 = map (upd (ID item) ''updated'' (Item.Price item)) (rows w) \<or>
                  rows w2 = rows w"
          using upf pef by (auto simp: upd_def [abs_def])
        have ids: "map UniqueCode (rows w2) = map UniqueCode (rows w)"
          using r2 by (auto simp: upd_def)
        have rw: "rows (worker env item w) = rows w5"
          using wk by (simp add: logFailure_rows processItem_rows)
        have r5: "rows w5 = rows w2 @ (if e3 = None then [newProduct item] else [])"
          using inf r4 by auto
        have k: "e3 = None \<and> unique_code_is_key env \<longrightarrow> ID item \<notin> set (map UniqueCode (rows w))"
          using inf r4 ids by (auto simp: newProduct_def)
        from r2 show ?thesis
        proof
          assume "rows w2 = map (upd (ID item) ''updated'' (Item.Price item)) (rows w)"
          with rw r5 k show ?thesis
            by (intro worker_rows_I [where b = True and a = "e3 = None" and st = "''updated''"
                  and pr = "Item.Price item"]) simp_all
        next
          assume "rows w2 = rows w"
          with rw r5 k show ?thesis
            by (intro worker_rows_I [where b = False and a = "e3 = None" and st = "[]" and pr = 0])
              simp_all
        qed
      qed
    qed
  qed
qed


lemma UniqueCode_upd [simp]: "UniqueCode (upd c st pr r) = UniqueCode r"
  by (simp add: upd_def)

lemma map_UniqueCode_upd: "map UniqueCode (map (upd c st pr) rs) = map UniqueCode rs"
  by (induction rs) simp_all

lemma filter_upd_other:
  "c \<in> S \<Longrightarrow> filter (\<lambda>r. UniqueCode r \<notin> S) (map (upd c st pr) rs) = filter (\<lambda>r. UniqueCode r \<notin> S) rs"
  by (induction rs) (auto simp: upd_def)

lemma worker_ids:
  "\<exists>tl. map UniqueCode (rows (worker env item w)) = map UniqueCode (rows w) @ tl \<and>
     (unique_code_is_key env \<longrightarrow>
        tl = [] \<or> (tl = [ID item] \<and> ID item \<notin> set (map UniqueCode (rows w))))"
proof -
  obtain st pr b a where
    r: "rows (worker env item w) =
       (if b then map (upd (ID item) st pr) (rows w) else rows w) @
       (if a then [newProduct item] else [])"
    and k: "a \<and> unique_code_is_key env \<longrightarrow> ID item \<notin> set (map UniqueCode (rows w))"
    using worker_rows [of env item w] by blast
  have "map UniqueCode (rows (worker env item w)) =
      map UniqueCode (rows w) @ (if a then [ID item] else [])"
    unfolding r by (simp add: map_UniqueCode_upd newProduct_def)
  with k show ?thesis by auto
qed

lemma worker_others:
  assumes "ID item \<in> S"
  shows "filter (\<lambda>r. UniqueCode r \<notin> S) (rows (worker env item w)) =
         filter (\<lambda>r. UniqueCode r \<notin> S) (rows w)"
proof -
  obtain st pr b a where
    r: "rows (worker env item w) =
       (if b then map (upd (ID item) st pr) (rows w) else rows w) @
       (if a then [newProduct item] else [])"
    using worker_rows [of env item w] by blast
  show ?thesis
    unfolding r using assms by (simp add: filter_upd_other newProduct_def)
qed

lemma worker_distinct:
  assumes "unique_code_is_key env" and "distinct (map UniqueCode (rows w))"
  shows "distinct (map UniqueCode (rows (worker env item w)))"
  using worker_ids [of env item w] assms by auto

lemma runWorkers_Cons: "runWorkers env (item # order) w = runWorkers env order (worker env item w)"
  by (simp add: runWorkers_def)

lemma runWorkers_ids:
  "\<exists>tl. map UniqueCode (rows (runWorkers env order w)) = map UniqueCode (rows w) @ tl"
proof (induction order arbitrary: w)
  case Nil
  show ?case by (simp add: runWorkers_def)
next
  case (Cons item order)
  obtain t1 where t1: "map UniqueCode (rows (worker env item w)) = map UniqueCode (rows w) @ t1"
    using worker_ids [of env item w] by blast
  obtain t2 where "map UniqueCode (rows (runWorkers env order (worker env item w))) =
      map UniqueCode (rows (worker env item w)) @ t2"
    using Cons.IH by blast
  with t1 show ?case by (simp add: runWorkers_Cons)
qed

lemma runWorkers_distinct:
  "unique_code_is_key env \<Longrightarrow> distinct (map UniqueCode (rows w)) \<Longrightarrow>
   distinct (map UniqueCode (rows (runWorkers env order w)))"
proof (induction order arbitrary: w)
  case Nil
  then show ?case by (simp add: runWorkers_def)
next
  case (Cons item order)
  then show ?case by (simp add: runWorkers_Cons worker_distinct)
qed

lemma runWorkers_others:
  "ID ` set order \<subseteq> S \<Longrightarrow>
   filter (\<lambda>r. UniqueCode r \<notin> S) (rows (runWorkers env order w)) =
   filter (\<lambda>r. UniqueCode r \<notin> S) (rows w)"
proof (induction order arbitrary: w)
  case Nil
  show ?case by (simp add: runWorkers_def)
next
  case (Cons item order)
  then show ?case by (simp add: runWorkers_Cons worker_others)
qed

lemma reachable_world:
  assumes "reachable env items w0 s"
  shows "world s = runWorkers env (finished s) w0 \<and> set (finished s) \<subseteq> set items"
proof -
  have inv: "run_inv env items w0 s"
    using assms by (rule reachable_run_inv)
  then have m: "mset items =
       mset (pending s) + mset (held (mpc s)) +
       mset (map fst (filter (\<lambda>g. snd g = GStart \<or> snd g = GLocked) (goroutines s))) +
       mset (finished s)"
    by (simp add: run_inv_def)
  have "set (finished s) \<subseteq> set items"
  proof
    fix x assume "x \<in> set (finished s)"
    then have "x \<in># mset (finished s)" by simp
    then have "x \<in># mset items" unfolding m by simp
    then show "x \<in> set items" by simp
  qed
  with inv show ?thesis by (simp add: run_inv_def)
qed

text \<open>A run on one item: the main goroutine and the one worker, step by step.\<close>

lemma single_item_run:
  "reachable env [item] w
     \<lparr>pending = [], mpc = MReturned, sem = 0, wg = 0, locked = False, goroutines = [],
      world = worker env item w, finished = [item]\<rparr>"
proof -
  let ?s1 = "\<lparr>pending = [], mpc = MAcquired item, sem = 1, wg = 0, locked = False, goroutines = [],
      world = w, finished = []\<rparr>"
  let ?s2 = "\<lparr>pending = [], mpc = MAdded item, sem = 1, wg = 1, locked = False, goroutines = [],
      world = w, finished = []\<rparr>"
  let ?s3 = "\<lparr>pending = [], mpc = MLoop, sem = 1, wg = 1, locked = False,
      goroutines = [(item, GStart)], world = w, finished = []\<rparr>"
  let ?s4 = "\<lparr>pending = [], mpc = MLoop, sem = 1, wg = 1, locked = True,
      goroutines = [(item, GLocked)], world = w, finished = []\<rparr>"
  let ?s5 = "\<lparr>pending = [], mpc = MLoop, sem = 1, wg = 1, locked = True,
      goroutines = [(item, GWorked)], world = worker env item w, finished = [item]\<rparr>"
  let ?s6 = "\<lparr>pending = [], mpc = MLoop, sem = 1, wg = 1, locked = False,
      goroutines = [(item, GUnlocked)], world = worker env item w, finished = [item]\<rparr>"
  let ?s7 = "\<lparr>pending = [], mpc = MLoop, sem = 1, wg = 0, locked = False,
      goroutines = [(item, GDone)], world = worker env item w, finished = [item]\<rparr>"
  let ?s8 = "\<lparr>pending = [], mpc = MLoop, sem = 0, wg = 0, locked = False,
      goroutines = [], world = worker env item w, finished = [item]\<rparr>"
  let ?s9 = "\<lparr>pending = [], mpc = MReturned, sem = 0, wg = 0, locked = False,
      goroutines = [], world = worker env item w, finished = [item]\<rparr>"
  have t1: "step env (init [item] w) ?s1"
    using m_send [of "init [item] w" item "[]" env] by (simp add: init_def maxWorkers_def)
  have t2: "step env ?s1 ?s2"
    using m_add [of ?s1 item env] by simp
  have t3: "step env ?s2 ?s3"
    using m_go [of ?s2 item env] by simp
  have t4: "step env ?s3 ?s4"
    using g_lock [of ?s3 "[]" item "[]" env] by simp
  have t5: "step env ?s4 ?s5"
    using g_body [of ?s4 "[]" item "[]" env] by simp
  have t6: "step env ?s5 ?s6"
    using g_unlock [of ?s5 "[]" item "[]" env] by simp
  have t7: "step env ?s6 ?s7"
    using g_done [of ?s6 "[]" item "[]" env] by simp
  have t8: "step env ?s7 ?s8"
    using g_recv [of ?s7 "[]" item "[]" env] by simp
  have t9: "step env ?s8 ?s9"
    using m_wait [of ?s8 env] by simp
  show ?thesis
    by (intro reachable_step [OF _ t9] reachable_step [OF _ t8] reachable_step [OF _ t7]
        reachable_step [OF _ t6] reachable_step [OF _ t5] reachable_step [OF _ t4]
        reachable_step [OF _ t3] reachable_step [OF _ t2] reachable_step [OF _ t1]
        reachable_init)
qed

section \<open>Invariants of the store over a run\<close>

lemma db_Exec_ids:
  assumes "db_Exec env q w = (r, w')"
  shows "\<exists>tl. map UniqueCode (rows w') = map UniqueCode (rows w) @ tl \<and>
     (unique_code_is_key env \<longrightarrow> distinct (map UniqueCode (rows w)) \<longrightarrow>
        distinct (map UniqueCode (rows w')))"
proof -
  from db_Exec_effect [OF assms]
  have "rows w' = rows w \<or> apply_stmt (unique_code_is_key env) q (rows w) = Inr (rows w')"
    by auto
  then show ?thesis
  proof
    assume "rows w' = rows w"
    then show ?thesis by simp
  next
    assume a: "apply_stmt (unique_code_is_key env) q (rows w) = Inr (rows w')"
    show ?thesis
    proof (cases q)
      case (InsertProduct p)
      with a have rw: "rows w' = rows w @ [p]"
        and nk: "\<not> (unique_code_is_key env \<and> UniqueCode p \<in> set (map UniqueCode (rows w)))"
        by (auto split: if_splits)
      have "map UniqueCode (rows w') = map UniqueCode (rows w) @ [UniqueCode p]"
        unfolding rw by simp
      moreover have "unique_code_is_key env \<longrightarrow> distinct (map UniqueCode (rows w)) \<longrightarrow>
        distinct (map UniqueCode (rows w'))"
        unfolding rw using nk by simp
      ultimately show ?thesis by blast
    next
      case (UpdateStatusPrice st pr c)
      with a have "rows w' = map (\<lambda>r. if UniqueCode r = c then r\<lparr>Status := st, Price := pr\<rparr> else r) (rows w)"
        by auto
      then have "map UniqueCode (rows w') = map UniqueCode (rows w)"
        by (simp add: comp_def if_distrib [of UniqueCode] cong: if_cong)
      then show ?thesis by simp
    next
      case UpdateAllDeleted
      with a have "rows w' = map (\<lambda>r. r\<lparr>Status := ''deleted''\<rparr>) (rows w)"
        by auto
      then have "map UniqueCode (rows w') = map UniqueCode (rows w)"
        by (simp add: comp_def)
      then show ?thesis by simp
    qed
  qed
qed

lemma markAllRecordsAsDeleted_rows:
  assumes "markAllRecordsAsDeleted env w = (r, w0)"
  shows "(r = None \<and> rows w0 = map (\<lambda>x. x\<lparr>Status := ''deleted''\<rparr>) (rows w)) \<or>
         (r \<noteq> None \<and> rows w0 = rows w)"
  using db_Exec_effect [OF assms [unfolded markAllRecordsAsDeleted_def]] by auto

lemma markAllRecordsAsDeleted_ids:
  assumes "markAllRecordsAsDeleted env w = (r, w0)"
  shows "map UniqueCode (rows w0) = map UniqueCode (rows w)"
  using markAllRecordsAsDeleted_rows [OF assms] by (auto simp: comp_def)

lemma productExists_absent:
  assumes "productExists c w = ((False, p, None), w1)"
  shows "c \<notin> set (map UniqueCode (rows w))"
proof -
  have "find (\<lambda>r. UniqueCode r = c) (rows w) = None"
    using assms by (auto simp: productExists_def split: list.splits option.splits)
  then show ?thesis by (auto simp: find_None_iff)
qed

lemma productExists_present:
  assumes "productExists c w = ((True, p, None), w1)"
  shows "c \<in> set (map UniqueCode (rows w))"
proof -
  obtain r1 where "find (\<lambda>r. UniqueCode r = c) (rows w) = Some r1"
    using productExists_found [OF assms] by blast
  then have "r1 \<in> set (rows w) \<and> UniqueCode r1 = c"
    by (auto simp: find_Some_iff)
  then show ?thesis by force
qed

lemma MPN_upd [simp]: "MPN (upd c st pr r) = MPN r"
  by (simp add: upd_def)

lemma worker_mpn:
  "\<exists>tl. map MPN (rows (worker env item w)) = map MPN (rows w) @ tl"
proof -
  obtain st pr b a where
    r: "rows (worker env item w) =
       (if b then map (upd (ID item) st pr) (rows w) else rows w) @
       (if a then [newProduct item] else [])"
    using worker_rows [of env item w] by blast
  show ?thesis unfolding r by simp
qed

lemma runWorkers_mpn:
  "\<exists>tl. map MPN (rows (runWorkers env order w)) = map MPN (rows w) @ tl"
proof (induction order arbitrary: w)
  case Nil
  show ?case by (simp add: runWorkers_def)
next
  case (Cons item order)
  obtain t1 where t1: "map MPN (rows (worker env item w)) = map MPN (rows w) @ t1"
    using worker_mpn [of env item w] by blast
  obtain t2 where "map MPN (rows (runWorkers env order (worker env item w))) =
      map MPN (rows (worker env item w)) @ t2"
    using Cons.IH by blast
  with t1 show ?case by (simp add: runWorkers_Cons)
qed

lemma db_Exec_mpn:
  assumes "db_Exec env q w = (r, w')"
  shows "\<exists>tl. map MPN (rows w') = map MPN (rows w) @ tl"
proof -
  from db_Exec_effect [OF assms]
  have "rows w' = rows w \<or> apply_stmt (unique_code_is_key env) q (rows w) = Inr (rows w')"
    by auto
  then show ?thesis
  proof
    assume "rows w' = rows w"
    then show ?thesis by simp
  next
    assume a: "apply_stmt (unique_code_is_key env) q (rows w) = Inr (rows w')"
    show ?thesis
    proof (cases q)
      case (InsertProduct pd)
      with a have "rows w' = rows w @ [pd]" by (auto split: if_splits)
      then show ?thesis by simp
    next
      case (UpdateStatusPrice st pr c)
      with a have "rows w' = map (upd c st pr) (rows w)"
        by (auto simp: upd_def [abs_def])
      then show ?thesis by (simp add: comp_def)
    next
      case UpdateAllDeleted
      with a have "rows w' = map (\<lambda>r. r\<lparr>Status := ''deleted''\<rparr>) (rows w)"
        by auto
      then show ?thesis by (simp add: comp_def)
    qed
  qed
qed

lemma take_prefix: "ys = xs @ zs \<Longrightarrow> take (length xs) ys = xs"
  by simp

text \<open>
  Where a worker appends its record: to a table without the identifier, or, on a table
  without the key, in the branch of a changed price.
\<close>

lemma worker_appends:
  "map UniqueCode (rows (worker env item w)) = map UniqueCode (rows w) \<or>
   (map UniqueCode (rows (worker env item w)) = map UniqueCode (rows w) @ [ID item] \<and>
    (ID item \<notin> set (map UniqueCode (rows w)) \<or>
     (\<not> unique_code_is_key env \<and>
      (\<exists>p w1. productExists (ID item) w = ((True, p, None), w1) \<and> p \<noteq> Item.Price item))))"
proof -
  obtain tl where tl: "map UniqueCode (rows (worker env item w)) = map UniqueCode (rows w) @ tl"
    and k: "unique_code_is_key env \<longrightarrow>
        tl = [] \<or> (tl = [ID item] \<and> ID item \<notin> set (map UniqueCode (rows w)))"
    using worker_ids [of env item w] by blast
  obtain st pr b a where
    r: "rows (worker env item w) =
       (if b then map (upd (ID item) st pr) (rows w) else rows w) @
       (if a then [newProduct item] else [])"
    using worker_rows [of env item w] by blast
  have ids: "map UniqueCode (rows (worker env item w)) =
      map UniqueCode (rows w) @ (if a then [ID item] else [])"
    unfolding r by (simp add: map_UniqueCode_upd newProduct_def)
  obtain ex p err w1 where pe: "productExists (ID item) w = ((ex, p, err), w1)"
    by (metis prod.exhaust)
  note pef = productExists_effect [OF pe]
  show ?thesis
  proof (cases a)
    case False
    with ids show ?thesis by simp
  next
    case True
    with ids have app: "map UniqueCode (rows (worker env item w)) = map UniqueCode (rows w) @ [ID item]"
      by simp
    show ?thesis
    proof (cases "ID item \<in> set (map UniqueCode (rows w))")
      case False
      with app show ?thesis by simp
    next
      case present: True
      have nk: "\<not> unique_code_is_key env"
        using k tl app present by auto
      have "err = None"
      proof (rule ccontr)
        assume "err \<noteq> None"
        then obtain e where "err = Some e" by auto
        with pe pef have "rows (worker env item w) = rows w"
          by (simp add: worker_def emit_def)
        with app show False by simp
      qed
      moreover have "ex"
      proof (rule ccontr)
        assume "\<not> ex"
        with pe \<open>err = None\<close> have "productExists (ID item) w = ((False, p, None), w1)" by simp
        from productExists_absent [OF this] present show False by simp
      qed
      moreover have "p \<noteq> Item.Price item"
      proof
        assume eq: "p = Item.Price item"
        obtain e1 w2 where up: "updateProductStatus env (ID item) ''existing'' (Item.Price item) w1 = (e1, w2)"
          by (metis prod.exhaust)
        have "rows (worker env item w) = rows w2"
          using pe \<open>err = None\<close> \<open>ex\<close> eq up by (simp add: worker_def logFailure_rows)
        moreover have "map UniqueCode (rows w2) = map UniqueCode (rows w)"
          using updateProductStatus_effect [OF up] pef
          by (auto simp: comp_def if_distrib [of UniqueCode] cong: if_cong)
        ultimately show False using app by simp
      qed
      ultimately have "productExists (ID item) w = ((True, p, None), w1) \<and> p \<noteq> Item.Price item"
        using pe by simp
      with nk app show ?thesis by blast
    qed
  qed
qed

text \<open>
  C2, as the code has it. No statement, worker or run changes the identifier or the mpn of
  a record that is there, or removes one: the records that were there keep their place.
  From a table with one record per identifier a worker leaves such a table, except in
  the branch of a changed price on a table that does not enforce the key, where it
  appends a second record of the identifier. On a table that enforces the key every
  statement, worker and run keeps one record per identifier, and the branch of a changed
  price leaves the identifiers as they were: its insert is refused.
\<close>

theorem store_identifiers_kept:
  assumes dist: "distinct (map UniqueCode (rows w))"
  shows
    "(db_Exec env q w = (r, w') \<longrightarrow>
        take (length (rows w)) (map UniqueCode (rows w')) = map UniqueCode (rows w) \<and>
        take (length (rows w)) (map MPN (rows w')) = map MPN (rows w) \<and>
        (unique_code_is_key env \<longrightarrow> distinct (map UniqueCode (rows w')))) \<and>
     take (length (rows w)) (map UniqueCode (rows (worker env item w))) = map UniqueCode (rows w) \<and>
     take (length (rows w)) (map MPN (rows (worker env item w))) = map MPN (rows w) \<and>
     (distinct (map UniqueCode (rows (worker env item w))) \<or>
      (\<not> unique_code_is_key env \<and>
       (\<exists>p w1. productExists (ID item) w = ((True, p, None), w1) \<and> p \<noteq> Item.Price item) \<and>
       map UniqueCode (rows (worker env item w)) = map UniqueCode (rows w) @ [ID item])) \<and>
     (unique_code_is_key env \<and> productExists (ID item) w = ((True, p, None), w1) \<and>
      p \<noteq> Item.Price item \<longrightarrow>
        map UniqueCode (rows (worker env item w)) = map UniqueCode (rows w)) \<and>
     (markAllRecordsAsDeleted env w = (r0, w0) \<and> reachable env items w0 s \<longrightarrow>
        take (length (rows w)) (map UniqueCode (rows (world s))) = map UniqueCode (rows w) \<and>
        take (length (rows w)) (map MPN (rows (world s))) = map MPN (rows w) \<and>
        (unique_code_is_key env \<longrightarrow> distinct (map UniqueCode (rows (world s)))))"
proof (intro conjI impI)
  assume a: "db_Exec env q w = (r, w')"
  from db_Exec_ids [OF a] obtain tl where "map UniqueCode (rows w') = map UniqueCode (rows w) @ tl"
    by blast
  from take_prefix [OF this]
  show "take (length (rows w)) (map UniqueCode (rows w')) = map UniqueCode (rows w)"
    by simp
  from db_Exec_mpn [OF a] obtain tl where "map MPN (rows w') = map MPN (rows w) @ tl"
    by blast
  from take_prefix [OF this]
  show "take (length (rows w)) (map MPN (rows w')) = map MPN (rows w)"
    by simp
  assume "unique_code_is_key env"
  with db_Exec_ids [OF a] dist
  show "distinct (map UniqueCode (rows w'))" by blast
next
  from worker_ids [of env item w] obtain tl where
    "map UniqueCode (rows (worker env item w)) = map UniqueCode (rows w) @ tl" by blast
  from take_prefix [OF this]
  show "take (length (rows w)) (map UniqueCode (rows (worker env item w))) = map UniqueCode (rows w)"
    by simp
next
  from worker_mpn [of env item w] obtain tl where
    "map MPN (rows (worker env item w)) = map MPN (rows w) @ tl" by blast
  from take_prefix [OF this]
  show "take (length (rows w)) (map MPN (rows (worker env item w))) = map MPN (rows w)"
    by simp
next
  from worker_appends [of env item w] dist
  show "distinct (map UniqueCode (rows (worker env item w))) \<or>
      (\<not> unique_code_is_key env \<and>
       (\<exists>p w1. productExists (ID item) w = ((True, p, None), w1) \<and> p \<noteq> Item.Price item) \<and>
       map UniqueCode (rows (worker env item w)) = map UniqueCode (rows w) @ [ID item])"
    by auto
next
  assume a: "unique_code_is_key env \<and> productExists (ID item) w = ((True, p, None), w1) \<and>
      p \<noteq> Item.Price item"
  then have "ID item \<in> set (map UniqueCode (rows w))"
    using productExists_present by blast
  with worker_ids [of env item w] a
  show "map UniqueCode (rows (worker env item w)) = map UniqueCode (rows w)"
    by auto
next
  assume a: "markAllRecordsAsDeleted env w = (r0, w0) \<and> reachable env items w0 s"
  then have m: "markAllRecordsAsDeleted env w = (r0, w0)" and re: "reachable env items w0 s"
    by simp_all
  have ids0: "map UniqueCode (rows w0) = map UniqueCode (rows w)"
    using m by (rule markAllRecordsAsDeleted_ids)
  have mpn0: "map MPN (rows w0) = map MPN (rows w)"
    using markAllRecordsAsDeleted_rows [OF m] by (auto simp: comp_def)
  have ws: "world s = runWorkers env (finished s) w0"
    using reachable_world [OF re] by simp
  from runWorkers_ids [of env "finished s" w0] obtain tl where
    "map UniqueCode (rows (world s)) = map UniqueCode (rows w) @ tl"
    unfolding ws ids0 by blast
  from take_prefix [OF this]
  show "take (length (rows w)) (map UniqueCode (rows (world s))) = map UniqueCode (rows w)"
    by simp
  from runWorkers_mpn [of env "finished s" w0] obtain tl where
    "map MPN (rows (world s)) = map MPN (rows w) @ tl"
    unfolding ws mpn0 by blast
  from take_prefix [OF this]
  show "take (length (rows w)) (map MPN (rows (world s))) = map MPN (rows w)"
    by simp
  assume key: "unique_code_is_key env"
  have d0: "distinct (map UniqueCode (rows w0))"
    using dist ids0 by simp
  show "distinct (map UniqueCode (rows (world s)))"
    unfolding ws using key d0 by (rule runWorkers_distinct)
qed

theorem store_identifiers_kept_witness:
  "distinct (map UniqueCode (rows (worldOf [rowD, rowC 5 ''new''] []))) \<and>
   db_Exec (constEnv True 204 200) (InsertProduct (rowC 9 ''new'')) (worldOf [rowD, rowC 5 ''new''] []) =
     (Some (SqliteError ErrConstraint), worldOf [rowD, rowC 5 ''new''] []) \<and>
   unique_code_is_key (constEnv True 204 200) \<and>
   productExists (ID (itemC (15/2))) (worldOf [rowD, rowC 5 ''new''] []) =
     ((True, 5, None), worldOf [rowD, rowC 5 ''new''] []) \<and>
   (5::rat) \<noteq> Item.Price (itemC (15/2)) \<and>
   map UniqueCode (rows (worker (constEnv True 204 200) (itemC (15/2)) (worldOf [rowD, rowC 5 ''new''] []))) =
     [''D'', ''C''] \<and>
   take 2 (map MPN (rows (worker (constEnv False 204 200) (itemC (15/2)) (worldOf [rowD, rowC 5 ''new''] [])))) =
     [''n'', ''m''] \<and>
   markAllRecordsAsDeleted (constEnv True 204 200) (worldOf [rowD, rowC 5 ''new''] []) =
     (None, worldOf [rowD\<lparr>Status := ''deleted''\<rparr>, rowC 5 ''deleted''] []) \<and>
   reachable (constEnv True 204 200) [itemC (15/2)]
     (worldOf [rowD\<lparr>Status := ''deleted''\<rparr>, rowC 5 ''deleted''] [])
     \<lparr>pending = [], mpc = MReturned, sem = 0, wg = 0, locked = False, goroutines = [],
      world = worker (constEnv True 204 200) (itemC (15/2))
                (worldOf [rowD\<lparr>Status := ''deleted''\<rparr>, rowC 5 ''deleted''] []),
      finished = [itemC (15/2)]\<rparr> \<and>
   distinct (map UniqueCode (rows (worker (constEnv True 204 200) (itemC (15/2))
     (worldOf [rowD\<lparr>Status := ''deleted''\<rparr>, rowC 5 ''deleted''] []))))"
proof -
  let ?E = "constEnv True 204 200"
  let ?F = "constEnv False 204 200"
  let ?v = "worldOf [rowD, rowC 5 ''new''] []"
  let ?vm = "worldOf [rowD\<lparr>Status := ''deleted''\<rparr>, rowC 5 ''deleted''] []"
  let ?it = "itemC (15/2)"
  let ?s = "\<lparr>pending = [], mpc = MReturned, sem = 0, wg = 0, locked = False, goroutines = [],
      world = worker ?E ?it ?vm, finished = [?it]\<rparr>"
  have key: "unique_code_is_key ?E"
    by (simp add: constEnv_def)
  have dist: "distinct (map UniqueCode (rows ?v))"
    by (simp add: worldOf_def rowD_def rowC_def)
  have ex: "db_Exec ?E (InsertProduct (rowC 9 ''new'')) ?v = (Some (SqliteError ErrConstraint), ?v)"
    by (simp add: db_Exec_def constEnv_def worldOf_def rowD_def rowC_def)
  have pe: "productExists (ID ?it) ?v = ((True, 5, None), ?v)"
    by (simp add: eval_defs)
  have ne: "(5::rat) \<noteq> Item.Price ?it"
    by (simp add: itemC_def)
  have m: "markAllRecordsAsDeleted ?E ?v = (None, ?vm)"
    by (simp add: markAllRecordsAsDeleted_def db_Exec_def constEnv_def worldOf_def rowD_def rowC_def)
  have re: "reachable ?E [?it] ?vm ?s"
    by (rule single_item_run)
  have ids: "map UniqueCode (rows ?v) = [''D'', ''C'']"
    by (simp add: worldOf_def rowD_def rowC_def)
  have mpns: "map MPN (rows ?v) = [''n'', ''m'']" and len: "length (rows ?v) = 2"
    by (simp_all add: worldOf_def rowD_def rowC_def)
  note t = store_identifiers_kept [OF dist, of ?E "InsertProduct (rowC 9 ''new'')"
        "Some (SqliteError ErrConstraint)" ?v ?it 5 ?v None ?vm "[?it]" ?s]
  note u = store_identifiers_kept [OF dist, of ?F "InsertProduct (rowC 9 ''new'')"
        "Some (SqliteError ErrConstraint)" ?v ?it 5 ?v None ?vm "[?it]" ?s]
  from t key pe ne have "map UniqueCode (rows (worker ?E ?it ?v)) = map UniqueCode (rows ?v)"
    by blast
  then have c: "map UniqueCode (rows (worker ?E ?it ?v)) = [''D'', ''C'']"
    by (simp only: ids)
  from u have "take (length (rows ?v)) (map MPN (rows (worker ?F ?it ?v))) = map MPN (rows ?v)"
    by blast
  then have e: "take 2 (map MPN (rows (worker ?F ?it ?v))) = [''n'', ''m'']"
    by (simp only: mpns len)
  from t key m re have "distinct (map UniqueCode (rows (world ?s)))"
    by blast
  then have d: "distinct (map UniqueCode (rows (worker ?E ?it ?vm)))"
    by simp
  show ?thesis
    by (intro conjI dist ex key pe ne c e m re d)
qed

text \<open>
  The record of \<open>C\<close> with price 5, and the item \<open>C\<close> with price 7.5. On a table without the
  key the worker leaves two records of \<open>C\<close>; on a table with the key it leaves one, and no
  record has been inserted under the identifier.
\<close>

theorem one_record_per_identifier_counterexample:
  "distinct (map UniqueCode (rows (worldOf [rowC 5 ''deleted''] []))) \<and>
   map UniqueCode (rows (worker (constEnv False 204 200) (itemC (15/2))
     (worldOf [rowC 5 ''deleted''] []))) = [''C'', ''C''] \<and>
   \<not> distinct (map UniqueCode (rows (worker (constEnv False 204 200) (itemC (15/2))
     (worldOf [rowC 5 ''deleted''] [])))) \<and>
   rows (worker (constEnv True 204 200) (itemC (15/2)) (worldOf [rowC 5 ''deleted''] [])) =
     [rowC (15/2) ''updated'']"
  by (simp add: eval_defs)

text \<open>
  C6. When the marking of all records succeeds every record has status \<open>deleted\<close>, and
  no identifier changes. In every state of the run that follows, and so when the run has
  returned, the records whose identifier is not in the feed are the records the marking
  left, in their order: each of them has status \<open>deleted\<close>.
\<close>

theorem absent_records_stay_deleted:
  assumes m: "markAllRecordsAsDeleted env w = (None, wm)"
    and re: "reachable env items wm s"
  shows
    "(\<forall>r\<in>set (rows wm). Status r = ''deleted'') \<and>
     map UniqueCode (rows wm) = map UniqueCode (rows w) \<and>
     filter (\<lambda>r. UniqueCode r \<notin> ID ` set items) (rows (world s)) =
       filter (\<lambda>r. UniqueCode r \<notin> ID ` set items) (rows wm) \<and>
     (\<forall>r\<in>set (rows (world s)). UniqueCode r \<notin> ID ` set items \<longrightarrow> Status r = ''deleted'')"
proof -
  have rw: "rows wm = map (\<lambda>x. x\<lparr>Status := ''deleted''\<rparr>) (rows w)"
    using markAllRecordsAsDeleted_rows [OF m] by simp
  have a: "\<forall>r\<in>set (rows wm). Status r = ''deleted''"
    unfolding rw by simp
  have b: "map UniqueCode (rows wm) = map UniqueCode (rows w)"
    using m by (rule markAllRecordsAsDeleted_ids)
  have ws: "world s = runWorkers env (finished s) wm" and fin: "set (finished s) \<subseteq> set items"
    using reachable_world [OF re] by simp_all
  have c: "filter (\<lambda>r. UniqueCode r \<notin> ID ` set items) (rows (world s)) =
       filter (\<lambda>r. UniqueCode r \<notin> ID ` set items) (rows wm)"
    unfolding ws using fin by (intro runWorkers_others) auto
  have d: "\<forall>r\<in>set (rows (world s)). UniqueCode r \<notin> ID ` set items \<longrightarrow> Status r = ''deleted''"
  proof (intro ballI impI)
    fix r assume "r \<in> set (rows (world s))" and "UniqueCode r \<notin> ID ` set items"
    then have "r \<in> set (filter (\<lambda>r. UniqueCode r \<notin> ID ` set items) (rows (world s)))"
      by simp
    then have "r \<in> set (rows wm)"
      unfolding c by simp
    with a show "Status r = ''deleted''" by simp
  qed
  show ?thesis using a b c d by blast
qed

theorem absent_records_stay_deleted_witness:
  "markAllRecordsAsDeleted (constEnv True 204 200) (worldOf [rowD, rowC 20 ''new''] []) =
     (None, worldOf [rowD\<lparr>Status := ''deleted''\<rparr>, rowC 20 ''deleted''] []) \<and>
   reachable (constEnv True 204 200) [itemC 20]
     (worldOf [rowD\<lparr>Status := ''deleted''\<rparr>, rowC 20 ''deleted''] [])
     \<lparr>pending = [], mpc = MReturned, sem = 0, wg = 0, locked = False, goroutines = [],
      world = worldOf [rowD\<lparr>Status := ''deleted''\<rparr>, rowC 20 ''existing''] [],
      finished = [itemC 20]\<rparr> \<and>
   filter (\<lambda>r. UniqueCode r \<notin> ID ` set [itemC 20])
     (rows (worldOf [rowD\<lparr>Status := ''deleted''\<rparr>, rowC 20 ''existing''] [])) =
     [rowD\<lparr>Status := ''deleted''\<rparr>]"
proof -
  let ?E = "constEnv True 204 200"
  let ?v = "worldOf [rowD, rowC 20 ''new''] []"
  let ?vm = "worldOf [rowD\<lparr>Status := ''deleted''\<rparr>, rowC 20 ''deleted''] []"
  let ?vf = "worldOf [rowD\<lparr>Status := ''deleted''\<rparr>, rowC 20 ''existing''] []"
  let ?it = "itemC 20"
  let ?s = "\<lparr>pending = [], mpc = MReturned, sem = 0, wg = 0, locked = False, goroutines = [],
      world = ?vf, finished = [?it]\<rparr>"
  have m: "markAllRecordsAsDeleted ?E ?v = (None, ?vm)"
    by (simp add: markAllRecordsAsDeleted_def db_Exec_def constEnv_def worldOf_def rowD_def rowC_def)
  have wk: "worker ?E ?it ?vm = ?vf"
    by (simp add: eval_defs)
  have re: "reachable ?E [?it] ?vm ?s"
    using single_item_run [of ?E ?it ?vm] by (simp only: wk)
  note t = absent_records_stay_deleted [OF m re]
  have f: "filter (\<lambda>r. UniqueCode r \<notin> ID ` set [?it]) (rows ?vm) = [rowD\<lparr>Status := ''deleted''\<rparr>]"
    by (simp add: worldOf_def rowD_def rowC_def itemC_def)
  from t have "filter (\<lambda>r. UniqueCode r \<notin> ID ` set [?it]) (rows (world ?s)) =
       filter (\<lambda>r. UniqueCode r \<notin> ID ` set [?it]) (rows ?vm)"
    by blast
  then have c: "filter (\<lambda>r. UniqueCode r \<notin> ID ` set [?it]) (rows ?vf) = [rowD\<lparr>Status := ''deleted''\<rparr>]"
    unfolding f by simp
  show ?thesis
    by (intro conjI m re c)
qed

end
